theory Spec2Isabelle
  imports Complex_Main "HOL-Library.Monad_Syntax"
begin

section \<open>The PDF417 detector of zxing (Detector.cpp)\<close>

text \<open>
  The development follows \<^verbatim>\<open>zxing/pdf417/detector/Detector.cpp\<close> function by
  function. Sizes, indices and run lengths (\<^verbatim>\<open>size_t\<close>, and the \<^verbatim>\<open>int\<close>
  counters, which only ever count pixels) are natural numbers; the other \<^verbatim>\<open>int\<close>
  values are integers. The arithmetic of \<^verbatim>\<open>patternMatchVariance\<close> is that of a 32-bit
  \<^verbatim>\<open>int\<close> and a 64-bit \<^verbatim>\<open>size_t\<close>, with the wrap-around written out, and
  \<^verbatim>\<open>Detector::round\<close> adds and converts as binary32 does. The other \<^verbatim>\<open>float\<close>
  operations are those of the real numbers, and pixel coordinates are taken to be
  below \<open>2 ^ 31\<close>.
\<close>

subsection \<open>Constants\<close>

text \<open>\<^verbatim>\<open>(int) ((1 << 8) * 0.42f)\<close> and \<^verbatim>\<open>(int) ((1 << 8) * 0.8f)\<close>: the cast
  truncates \<open>107.52\<close> to 107 and \<open>204.8\<close> to 204 (lemma \<open>variance_caps_truncated\<close>).\<close>

definition MAX_AVG_VARIANCE :: int where
  "MAX_AVG_VARIANCE = 107"

definition MAX_INDIVIDUAL_VARIANCE :: int where
  "MAX_INDIVIDUAL_VARIANCE = 204"

definition START_PATTERN :: "nat list" where
  "START_PATTERN = [8, 1, 1, 1, 1, 1, 1, 3]"

definition START_PATTERN_REVERSE :: "nat list" where
  "START_PATTERN_REVERSE = [3, 1, 1, 1, 1, 1, 1, 8]"

definition STOP_PATTERN :: "nat list" where
  "STOP_PATTERN = [7, 1, 1, 3, 1, 1, 1, 2, 1]"

definition STOP_PATTERN_REVERSE :: "nat list" where
  "STOP_PATTERN_REVERSE = [1, 2, 1, 1, 1, 3, 1, 1, 7]"

definition COUNT_VERTICES :: nat where
  "COUNT_VERTICES = 16"

text \<open>\<^verbatim>\<open>std::numeric_limits<int>::max()\<close>\<close>

definition INT_MAX :: int where
  "INT_MAX = 2147483647"

text \<open>The value a 32-bit \<^verbatim>\<open>int\<close> holds when the exact result of an operation is \<open>i\<close>:
  two's complement wrap-around. (Signed overflow is undefined in C++; this is what
  the usual targets compute. The theorems that follow say where no operation
  overflows.)\<close>

definition int32 :: "int \<Rightarrow> int" where
  "int32 i = (i + 2 ^ 31) mod 2 ^ 32 - 2 ^ 31"

subsection \<open>patternMatchVariance\<close>

text \<open>The first loop adds up the counters and the pattern, index by index.\<close>

definition pmvTotals :: "nat list \<Rightarrow> nat list \<Rightarrow> nat \<times> nat" where
  "pmvTotals counters pattern =
     fold (\<lambda>i (total', patternLength). (total' + counters ! i, patternLength + pattern ! i))
       [0 ..< length counters] (0, 0)"

text \<open>The second loop; \<open>None\<close> is its early \<^verbatim>\<open>return\<close> of the maximal score.\<close>

function pmvLoop :: "nat list \<Rightarrow> nat list \<Rightarrow> int \<Rightarrow> int \<Rightarrow> nat \<Rightarrow> int \<Rightarrow> int option" where
  "pmvLoop counters pattern unitBarWidth maxIndividualVariance x totalVariance =
     (if x < length counters then
        (let counter = int32 (int (counters ! x) * 2 ^ 8);
             scaledPattern = int32 (int (pattern ! x) * unitBarWidth);
             variance = int32 (if counter > scaledPattern then counter - scaledPattern
                               else scaledPattern - counter)
         in if variance > maxIndividualVariance then None
            else pmvLoop counters pattern unitBarWidth maxIndividualVariance (x + 1)
                   (int32 (totalVariance + variance)))
      else Some totalVariance)"
  by pat_completeness auto
termination
  by (relation "measure (\<lambda>(counters, pattern, u, m, x, tv). length counters - x)") auto

declare pmvLoop.simps [simp del]

text \<open>
  \<open>total\<close> and \<open>patternLength\<close> are \<^verbatim>\<open>size_t\<close>: \<open>total << 8\<close> is taken modulo
  \<open>2 ^ 64\<close>, the quotient is converted to \<^verbatim>\<open>int\<close>, and in
  \<^verbatim>\<open>totalVariance / total\<close> the \<^verbatim>\<open>int\<close> is converted to \<^verbatim>\<open>size_t\<close> before the
  division and the quotient back to \<^verbatim>\<open>int\<close>. \<^verbatim>\<open>>> 8\<close> on an \<^verbatim>\<open>int\<close> is the
  arithmetic shift.
\<close>

definition patternMatchVariance :: "nat list \<Rightarrow> nat list \<Rightarrow> int \<Rightarrow> int" where
  "patternMatchVariance counters pattern maxIndividualVariance =
     (let (total', patternLength) = pmvTotals counters pattern
      in if total' < patternLength then INT_MAX
         else
           (let unitBarWidth = int32 (int (((total' * 2 ^ 8) mod 2 ^ 64) div patternLength));
                maxIndividualVariance' = int32 (maxIndividualVariance * unitBarWidth) div 2 ^ 8
            in case pmvLoop counters pattern unitBarWidth maxIndividualVariance' 0 0 of
                 None \<Rightarrow> INT_MAX
               | Some totalVariance \<Rightarrow>
                   int32 ((totalVariance mod 2 ^ 64) div int total')))"

text \<open>The quantity the second loop compares with the cap, for element \<open>i\<close>:
  \<open>|counters[i] << 8 - pattern[i] * unitBarWidth|\<close>.\<close>

definition elementVariance :: "nat list \<Rightarrow> nat list \<Rightarrow> int \<Rightarrow> nat \<Rightarrow> int" where
  "elementVariance counters pattern unitBarWidth i =
     \<bar>int (counters ! i) * 2 ^ 8 - int (pattern ! i) * unitBarWidth\<bar>"

subsection \<open>The binary image\<close>

text \<open>
  \<^verbatim>\<open>BitMatrix\<close> is declared outside this file: the model takes it as given, a
  width, a height and the pixel test \<^verbatim>\<open>get(x, y)\<close> (true for black). The test has
  no bounds check; \<open>get\<close> is therefore a function of any two integers, and what it
  yields outside the image is whatever the matrix at hand says.
\<close>

record bitmatrix =
  getWidth :: nat
  getHeight :: nat
  get :: "int \<Rightarrow> int \<Rightarrow> bool"

subsection \<open>findGuardPattern\<close>

text \<open>The inner \<^verbatim>\<open>for\<close> loop that moves every counter two places down; the two
  assignments after it clear the last two.\<close>

definition shiftCounters :: "nat \<Rightarrow> nat list \<Rightarrow> nat list" where
  "shiftCounters patternLength counters =
     (fold (\<lambda>i cs. cs[i := cs ! (i + 2)]) [0 ..< patternLength - 2] counters)
       [patternLength - 2 := 0, patternLength - 1 := 0]"

text \<open>
  The pixel loop, from \<open>x\<close> up to \<open>limit = column + width\<close>. The result
  \<open>Some (patternStart, x)\<close> is the two-element array of the source, \<open>None\<close> its
  null reference.
\<close>

function findGuardPatternLoop ::
  "bitmatrix \<Rightarrow> nat \<Rightarrow> nat \<Rightarrow> nat list \<Rightarrow> nat list \<Rightarrow> nat \<Rightarrow> nat \<Rightarrow> bool \<Rightarrow> nat
     \<Rightarrow> (nat \<times> nat) option" where
  "findGuardPatternLoop matrix row limit pattern counters counterPosition patternStart isWhite x =
     (if x < limit then
        (if get matrix (int x) (int row) \<noteq> isWhite then
           findGuardPatternLoop matrix row limit pattern
             (counters[counterPosition := counters ! counterPosition + 1])
             counterPosition patternStart isWhite (x + 1)
         else if counterPosition = length pattern - 1 then
           (if patternMatchVariance counters pattern MAX_INDIVIDUAL_VARIANCE < MAX_AVG_VARIANCE
            then Some (patternStart, x)
            else
              findGuardPatternLoop matrix row limit pattern
                ((shiftCounters (length pattern) counters)[counterPosition - 1 := 1])
                (counterPosition - 1) (patternStart + counters ! 0 + counters ! 1)
                (\<not> isWhite) (x + 1))
         else
           findGuardPatternLoop matrix row limit pattern
             (counters[counterPosition + 1 := 1]) (counterPosition + 1) patternStart
             (\<not> isWhite) (x + 1))
      else None)"
  by pat_completeness auto
termination
  by (relation "measure (\<lambda>(matrix, row, limit, pattern, counters, cp, ps, w, x). limit - x)") auto

declare findGuardPatternLoop.simps [simp del]

text \<open>The counters are cleared on entry, so only the size of the buffer passed in
  matters.\<close>

definition findGuardPattern ::
  "bitmatrix \<Rightarrow> nat \<Rightarrow> nat \<Rightarrow> nat \<Rightarrow> bool \<Rightarrow> nat list \<Rightarrow> nat list \<Rightarrow> (nat \<times> nat) option" where
  "findGuardPattern matrix column row width whiteFirst pattern counters =
     findGuardPatternLoop matrix row (column + width) pattern
       (replicate (length counters) 0) 0 column whiteFirst column"

text \<open>
  For the statements about \<^verbatim>\<open>findGuardPattern\<close>: the pixels of a row before column
  \<open>e\<close> end with a run of \<open>n\<close> pixels of the colour \<open>c\<close>, before it a run of the other
  colour, and so on through the list, the nearest run first. \<open>px x\<close> is the pixel in
  column \<open>x\<close>, true for black.
\<close>

fun runsBefore :: "(nat \<Rightarrow> bool) \<Rightarrow> nat \<Rightarrow> bool \<Rightarrow> nat list \<Rightarrow> bool" where
  "runsBefore px e c [] = True"
| "runsBefore px e c (n # ns) =
     (n \<le> e \<and> list_all (\<lambda>x. px x = c) [e - n ..< e] \<and> runsBefore px (e - n) (\<not> c) ns)"

subsection \<open>Points and the vertex vector\<close>

text \<open>
  A \<^verbatim>\<open>float\<close> is modelled by the real number it stands for, and arithmetic on
  floats by exact arithmetic: rounding errors are not modelled. The coordinates that
  \<^verbatim>\<open>findVertices\<close> stores are column and row numbers, on which the conversion to
  \<^verbatim>\<open>float\<close> and the differences taken below are exact.

  \<^verbatim>\<open>Ref<ResultPoint>\<close> is a reference that may be null: \<open>point option\<close>. The
  vertex vector is a list of them; \<^verbatim>\<open>result.clear()\<close> leaves the empty list.
\<close>

record point =
  getX :: real
  getY :: real

type_synonym vertices = "point option list"

definition newResultPoint :: "real \<Rightarrow> real \<Rightarrow> point option" where
  "newResultPoint a b = Some \<lparr>getX = a, getY = b\<rparr>"

subsection \<open>The row scans of findVertices and findVertices180\<close>

text \<open>
  \<^verbatim>\<open>for (size_t i = 0; i < height; i += rowStep)\<close> with its \<^verbatim>\<open>break\<close> at the first
  row in which \<open>findRow\<close> finds the pattern. The loop does not end when
  \<open>rowStep = 0\<close> and the first row has no match: the outer \<open>None\<close> stands for
  not returning. \<open>Some None\<close> is the loop running out of rows, \<open>Some (Some (loc, i))\<close>
  the match \<open>loc\<close> in row \<open>i\<close>.
\<close>

partial_function (option) scanTopDown ::
  "(nat \<Rightarrow> (nat \<times> nat) option) \<Rightarrow> nat \<Rightarrow> nat \<Rightarrow> nat \<Rightarrow> ((nat \<times> nat) \<times> nat) option option" where
  "scanTopDown findRow height rowStep i =
     (if i < height then
        (case findRow i of
           Some loc \<Rightarrow> Some (Some (loc, i))
         | None \<Rightarrow> scanTopDown findRow height rowStep (i + rowStep))
      else Some None)"

declare scanTopDown.simps [code]

text \<open>\<^verbatim>\<open>for (long i = height - 1; i > 0; i -= rowStep)\<close> (an \<^verbatim>\<open>int i\<close> in
  \<^verbatim>\<open>findVertices180\<close>): row 0 is never looked at.\<close>

partial_function (option) scanBottomUp ::
  "(nat \<Rightarrow> (nat \<times> nat) option) \<Rightarrow> nat \<Rightarrow> int \<Rightarrow> ((nat \<times> nat) \<times> nat) option option" where
  "scanBottomUp findRow rowStep i =
     (if i > 0 then
        (case findRow (nat i) of
           Some loc \<Rightarrow> Some (Some (loc, nat i))
         | None \<Rightarrow> scanBottomUp findRow rowStep (i - int rowStep))
      else Some None)"

declare scanBottomUp.simps [code]

text \<open>What one of the four steps does with the outcome of its scan: on a match it
  stores the two corners of that row and sets \<^verbatim>\<open>found\<close>. \<open>a\<close> is the slot that
  takes \<^verbatim>\<open>loc[0]\<close>, \<open>b\<close> the slot that takes \<^verbatim>\<open>loc[1]\<close>.\<close>

definition storeCorners ::
  "vertices \<Rightarrow> nat \<Rightarrow> nat \<Rightarrow> ((nat \<times> nat) \<times> nat) option \<Rightarrow> vertices \<times> bool" where
  "storeCorners result a b scanned =
     (case scanned of
        None \<Rightarrow> (result, False)
      | Some (loc, i) \<Rightarrow>
          (result[a := newResultPoint (of_nat (fst loc)) (of_nat i),
                  b := newResultPoint (of_nat (snd loc)) (of_nat i)], True))"

subsection \<open>findVertices\<close>

definition findVertices :: "bitmatrix \<Rightarrow> nat \<Rightarrow> vertices option" where
  "findVertices matrix rowStep =
     (let height = getHeight matrix;
          width = getWidth matrix;
          result = replicate COUNT_VERTICES None;
          counters = replicate (length START_PATTERN) 0
      in do {
        \<comment> \<open>Top Left\<close>
        scan1 \<leftarrow> scanTopDown
          (\<lambda>i. findGuardPattern matrix 0 i width False START_PATTERN counters) height rowStep 0;
        let (result1, found1) = storeCorners result 0 4 scan1;
        \<comment> \<open>Bottom left\<close>
        scan2 \<leftarrow> (if found1 then scanBottomUp
          (\<lambda>i. findGuardPattern matrix 0 i width False START_PATTERN counters) rowStep
          (int height - 1) else Some None);
        let (result2, found2) = (if found1 then storeCorners result1 1 5 scan2 else (result1, found1));
        let counters' = replicate (length STOP_PATTERN) 0;
        \<comment> \<open>Top right\<close>
        scan3 \<leftarrow> (if found2 then scanTopDown
          (\<lambda>i. findGuardPattern matrix 0 i width False STOP_PATTERN counters') height rowStep 0
          else Some None);
        let (result3, found3) = (if found2 then storeCorners result2 6 2 scan3 else (result2, found2));
        \<comment> \<open>Bottom right\<close>
        scan4 \<leftarrow> (if found3 then scanBottomUp
          (\<lambda>i. findGuardPattern matrix 0 i width False STOP_PATTERN counters') rowStep
          (int height - 1) else Some None);
        let (result4, found4) = (if found3 then storeCorners result3 7 3 scan4 else (result3, found3));
        Some (if \<not> found4 then [] else result4)
      })"

subsection \<open>findVertices180\<close>

definition findVertices180 :: "bitmatrix \<Rightarrow> nat \<Rightarrow> vertices option" where
  "findVertices180 matrix rowStep =
     (let height = getHeight matrix;
          width = getWidth matrix;
          halfWidth = width div 2;
          result = replicate COUNT_VERTICES None;
          counters = replicate (length START_PATTERN_REVERSE) 0
      in do {
        \<comment> \<open>Top Left\<close>
        scan1 \<leftarrow> scanBottomUp
          (\<lambda>i. findGuardPattern matrix halfWidth i halfWidth True START_PATTERN_REVERSE counters)
          rowStep (int height - 1);
        let (result1, found1) = storeCorners result 4 0 scan1;
        \<comment> \<open>Bottom Left\<close>
        scan2 \<leftarrow> (if found1 then scanTopDown
          (\<lambda>i. findGuardPattern matrix halfWidth i halfWidth True START_PATTERN_REVERSE counters)
          height rowStep 0 else Some None);
        let (result2, found2) = (if found1 then storeCorners result1 5 1 scan2 else (result1, found1));
        let counters' = replicate (length STOP_PATTERN_REVERSE) 0;
        \<comment> \<open>Top Right\<close>
        scan3 \<leftarrow> (if found2 then scanBottomUp
          (\<lambda>i. findGuardPattern matrix 0 i halfWidth False STOP_PATTERN_REVERSE counters')
          rowStep (int height - 1) else Some None);
        let (result3, found3) = (if found2 then storeCorners result2 2 6 scan3 else (result2, found2));
        \<comment> \<open>Bottom Right\<close>
        scan4 \<leftarrow> (if found3 then scanTopDown
          (\<lambda>i. findGuardPattern matrix 0 i halfWidth False STOP_PATTERN_REVERSE counters')
          height rowStep 0 else Some None);
        let (result4, found4) = (if found3 then storeCorners result3 3 7 scan4 else (result3, found3));
        Some (if \<not> found4 then [] else result4)
      })"

subsection \<open>Populated vertex vectors\<close>

text \<open>The vector has its sixteen slots, and none of the slots 0 to 7 is null.\<close>

definition allEight :: "vertices \<Rightarrow> bool" where
  "allEight vs = (length vs = COUNT_VERTICES \<and> list_all (\<lambda>v. v \<noteq> None) (take 8 vs))"

subsection \<open>Failures\<close>

text \<open>
  Every failure of the source is a \<^verbatim>\<open>NotFoundException\<close>; the constructors name the
  messages. \<open>NullVertex\<close> is the dereference of a null reference in the vertex vector
  (or an index past its end), which the source does not check for. \<open>Collaborator\<close> is
  a failure raised by the grid sampler or the lines sampler.
\<close>

datatype error =
    NoVerticesFound \<comment> \<open>"No vertices found."\<close>
  | BadModuleWidth \<comment> \<open>"Bad module width."\<close>
  | BadDimension \<comment> \<open>"Bad dimension."\<close>
  | NotEnoughGuardPatterns \<comment> \<open>"Cannot find enough PDF417 guard patterns!"\<close>
  | ParallelLines \<comment> \<open>"PDF:Detector: cannot find the crossing of parallel lines!"\<close>
  | CrossingOutOfRegion \<comment> \<open>"PDF:Detector: crossing points out of region!"\<close>
  | NullVertex
  | Collaborator

definition vertexAt :: "vertices \<Rightarrow> nat \<Rightarrow> error + point" where
  "vertexAt vs i =
     (if i < length vs then (case vs ! i of None \<Rightarrow> Inl NullVertex | Some p \<Rightarrow> Inr p)
      else Inl NullVertex)"

text \<open>Sequencing of steps that may fail.\<close>

definition andThen :: "error + 'a \<Rightarrow> ('a \<Rightarrow> error + 'b) \<Rightarrow> error + 'b" where
  "andThen r f = (case r of Inl e \<Rightarrow> Inl e | Inr v \<Rightarrow> f v)"

subsection \<open>Conversions from float to int\<close>

text \<open>The cast \<^verbatim>\<open>(int) d\<close> drops the fraction. Outside the range of \<^verbatim>\<open>int\<close> the
  conversion is undefined in C++; the model writes out what the conversion
  instruction of the usual target (\<^verbatim>\<open>cvttss2si\<close>) returns there, the least \<^verbatim>\<open>int\<close>.\<close>

definition toInt :: "real \<Rightarrow> int" where
  "toInt d = (let t = (if 0 \<le> d then \<lfloor>d\<rfloor> else \<lceil>d\<rceil>)
              in if - (2 ^ 31) \<le> t \<and> t < 2 ^ 31 then t else - (2 ^ 31))"

text \<open>
  Rounding to binary32, to nearest with ties to even. \<open>binade a\<close> is the exponent
  \<open>e\<close> with \<open>2 ^ e \<le> a < 2 ^ (e + 1)\<close>, kept between \<open>- 126\<close> (below, the numbers are
  subnormal and as far apart as at \<open>- 126\<close>) and 127; the numbers of binary32 with that
  exponent are the multiples of \<open>2 ^ (e - 23)\<close>. Overflow to infinity is left out: a
  value that large is outside the range of \<^verbatim>\<open>int\<close> in any case.
\<close>

function binadeUp :: "real \<Rightarrow> int \<Rightarrow> int" where
  "binadeUp a e = (if e < 127 \<and> 2 powi (e + 1) \<le> a then binadeUp a (e + 1) else e)"
  by pat_completeness auto
termination
  by (relation "measure (\<lambda>(a, e). nat (127 - e))") auto

function binadeDown :: "real \<Rightarrow> int \<Rightarrow> int" where
  "binadeDown a e = (if - 126 < e \<and> a < 2 powi e then binadeDown a (e - 1) else e)"
  by pat_completeness auto
termination
  by (relation "measure (\<lambda>(a, e). nat (e + 126))") auto

declare binadeUp.simps [simp del] binadeDown.simps [simp del]

definition binade :: "real \<Rightarrow> int" where
  "binade a = (if 1 \<le> a then binadeUp a 0 else binadeDown a (- 1))"

definition roundEven :: "real \<Rightarrow> int" where
  "roundEven r =
     (let f = \<lfloor>r\<rfloor>; h = r - of_int f
      in if h < 1 / 2 then f else if 1 / 2 < h then f + 1 else if even f then f else f + 1)"

definition float32 :: "real \<Rightarrow> real" where
  "float32 v =
     (let e = binade \<bar>v\<bar> - 23
      in if 0 \<le> e then of_int (roundEven (v / 2 ^ nat e)) * 2 ^ nat e
         else of_int (roundEven (v * 2 ^ nat (- e))) / 2 ^ nat (- e))"

text \<open>\<^verbatim>\<open>Detector::round\<close>: \<^verbatim>\<open>(int) (d + 0.5f)\<close>, the sum being a \<^verbatim>\<open>float\<close>.\<close>

definition roundF :: "real \<Rightarrow> int" where
  "roundF d = toInt (float32 (d + 1 / 2))"

subsection \<open>findWideBarTopBottom\<close>

text \<open>
  Every pixel test is recorded: the functions of this section carry the list of the
  coordinates they have passed to \<^verbatim>\<open>get\<close>, newest first. Of \<^verbatim>\<open>a && b\<close> the right
  operand is tested only when the left one holds.
\<close>

type_synonym tests = "(int \<times> int) list"

text \<open>\<^verbatim>\<open>for (; nextBarX < matrix->getWidth(); nextBarX++)
    if (!matrix->get(nextBarX - 1, y) && matrix->get(nextBarX, y)) break;\<close>
  The comparison is unsigned, so a negative \<open>nextBarX\<close> ends the loop at once.\<close>

function nextBarLoop :: "bitmatrix \<Rightarrow> int \<Rightarrow> int \<Rightarrow> tests \<Rightarrow> int \<times> tests" where
  "nextBarLoop matrix y nextBarX tested =
     (if 0 \<le> nextBarX \<and> nextBarX < int (getWidth matrix) then
        (if \<not> get matrix (nextBarX - 1) y then
           (if get matrix nextBarX y
            then (nextBarX, (nextBarX, y) # (nextBarX - 1, y) # tested)
            else nextBarLoop matrix y (nextBarX + 1) ((nextBarX, y) # (nextBarX - 1, y) # tested))
         else nextBarLoop matrix y (nextBarX + 1) ((nextBarX - 1, y) # tested))
      else (nextBarX, tested))"
  by pat_completeness auto
termination
  by (relation "measure (\<lambda>(matrix, y, nextBarX, tested). nat (int (getWidth matrix) - nextBarX))")
     auto

declare nextBarLoop.simps [simp del]

text \<open>
  \<^verbatim>\<open>while (!isEnd)\<close>. The loop is entered with \<open>isEnd = false\<close>, and each round that
  sets \<open>isEnd\<close> is the last, so \<open>isEnd\<close> is not an argument: a round either returns
  \<open>(x, y)\<close> or goes on. With \<open>rowStep = 0\<close> the loop need not end; \<open>None\<close> stands for
  not returning.
\<close>

partial_function (option) wideBarLoop ::
  "bitmatrix \<Rightarrow> int \<Rightarrow> int \<Rightarrow> int \<Rightarrow> int \<Rightarrow> int \<Rightarrow> tests \<Rightarrow> ((int \<times> int) \<times> tests) option" where
  "wideBarLoop matrix rowStep yStart nextBarX x y tested =
     (if get matrix x y then
        \<comment> \<open>If the thin bar to the right ended, stop as well\<close>
        (let ahead = get matrix (x + nextBarX) y;
             isEnd = (\<not> ahead \<and> \<not> get matrix (x + nextBarX + 1) y);
             tested' = (if ahead then (x + nextBarX, y) # (x, y) # tested
                        else (x + nextBarX + 1, y) # (x + nextBarX, y) # (x, y) # tested);
             y' = y + rowStep
         in if isEnd \<or> y' \<le> 0 \<or> y' \<ge> int (getHeight matrix) - 1
            then Some ((x, y'), tested')
            else wideBarLoop matrix rowStep yStart nextBarX x y' tested')
      else
        \<comment> \<open>Look sidewise whether black bar continues\<close>
        (if x > 0 \<and> get matrix (x - 1) y then
           wideBarLoop matrix rowStep yStart nextBarX (x - 1) y ((x - 1, y) # (x, y) # tested)
         else
           (let tested' = (if x > 0 then (x - 1, y) # (x, y) # tested else (x, y) # tested)
            in if x < int (getWidth matrix) - 1 \<and> get matrix (x + 1) y then
                 wideBarLoop matrix rowStep yStart nextBarX (x + 1) y ((x + 1, y) # tested')
               else
                 Some ((x, if y \<noteq> yStart then y - rowStep else y),
                       (if x < int (getWidth matrix) - 1 then (x + 1, y) # tested' else tested')))))"

declare wideBarLoop.simps [code]

text \<open>The function proper. Its result is the vertex vector with slot
  \<open>offsetVertice + 8\<close> filled, and the pixel tests made.\<close>

definition findWideBarTopBottom ::
  "bitmatrix \<Rightarrow> vertices \<Rightarrow> nat \<Rightarrow> int \<Rightarrow> int \<Rightarrow> int \<Rightarrow> int \<Rightarrow> (error + vertices \<times> tests) option" where
  "findWideBarTopBottom matrix vs offsetVertice startWideBar lenWideBar lenPattern rowStep =
     (case vertexAt vs offsetVertice of
        Inl e \<Rightarrow> Some (Inl e)
      | Inr verticeStart \<Rightarrow>
     (case vertexAt vs (offsetVertice + 4) of
        Inl e \<Rightarrow> Some (Inl e)
      | Inr verticeEnd \<Rightarrow>
        (let endWideBar = startWideBar + lenWideBar;
             barDiff = getX verticeEnd - getX verticeStart;
             barStart = getX verticeStart + barDiff * of_int startWideBar / of_int lenPattern;
             barEnd = getX verticeStart + barDiff * of_int endWideBar / of_int lenPattern;
             x = roundF ((barStart + barEnd) / 2);
             yStart = roundF (getY verticeStart);
             y = yStart;
             found = nextBarLoop matrix y (toInt (max barStart barEnd + 1)) [];
             nextBarX = fst found - x
         in map_option
              (\<lambda>(xy, tested).
                 Inr (vs[offsetVertice + 8 := newResultPoint (of_int (fst xy)) (of_int (snd xy))],
                      tested))
              (wideBarLoop matrix rowStep yStart nextBarX x y (snd found)))))"

subsection \<open>intersection and findCrossingPoint\<close>

text \<open>
  \<^verbatim>\<open>Point\<close> and \<^verbatim>\<open>Line\<close> are declared outside this file. A \<^verbatim>\<open>Point\<close> holds two
  floats; the only one with a coordinate that is not finite is the one
  \<^verbatim>\<open>intersection\<close> builds from \<^verbatim>\<open>std::numeric_limits<float>::infinity()\<close>, here
  \<open>InfinitePoint\<close>.
\<close>

datatype Point = Point real real | InfinitePoint

datatype Line = Line (lineStart: Point) (lineEnd: Point)

fun pointX :: "Point \<Rightarrow> real" where
  "pointX (Point a b) = a"
| "pointX InfinitePoint = 0"

fun pointY :: "Point \<Rightarrow> real" where
  "pointY (Point a b) = b"
| "pointY InfinitePoint = 0"

definition intersection :: "Line \<Rightarrow> Line \<Rightarrow> Point" where
  "intersection a b =
     (let dxa = pointX (lineStart a) - pointX (lineEnd a);
          dxb = pointX (lineStart b) - pointX (lineEnd b);
          dya = pointY (lineStart a) - pointY (lineEnd a);
          dyb = pointY (lineStart b) - pointY (lineEnd b);
          p = pointX (lineStart a) * pointY (lineEnd a) - pointY (lineStart a) * pointX (lineEnd a);
          q = pointX (lineStart b) * pointY (lineEnd b) - pointY (lineStart b) * pointX (lineEnd b);
          denom = dxa * dyb - dya * dxb
      in if \<bar>denom\<bar> < 1 / 10 ^ 12 then InfinitePoint
         else Point ((p * dxb - dxa * q) / denom) ((p * dyb - dya * q) / denom))"

definition findCrossingPoint ::
  "vertices \<Rightarrow> nat \<Rightarrow> nat \<Rightarrow> nat \<Rightarrow> nat \<Rightarrow> nat \<Rightarrow> bitmatrix \<Rightarrow> error + vertices" where
  "findCrossingPoint vs idxResult idxLineA1 idxLineA2 idxLineB1 idxLineB2 matrix =
     andThen (vertexAt vs idxLineA1) (\<lambda>a1.
     andThen (vertexAt vs idxLineA2) (\<lambda>a2.
     andThen (vertexAt vs idxLineB1) (\<lambda>b1.
     andThen (vertexAt vs idxLineB2) (\<lambda>b2.
       (let p1 = Point (getX a1) (getY a1);
            p2 = Point (getX a2) (getY a2);
            p3 = Point (getX b1) (getY b1);
            p4 = Point (getX b2) (getY b2)
        in case intersection (Line p1 p2) (Line p3 p4) of
             InfinitePoint \<Rightarrow> Inl ParallelLines
           | Point rx ry \<Rightarrow>
               (let x = roundF rx; y = roundF ry
                in if x < 0 \<or> x \<ge> int (getWidth matrix) \<or> y < 0 \<or> y \<ge> int (getHeight matrix)
                   then Inl CrossingOutOfRegion
                   else Inr (vs[idxResult := newResultPoint rx ry])))))))"

subsection \<open>correctVertices\<close>

text \<open>One call of \<^verbatim>\<open>findWideBarTopBottom\<close> after another: a failure or a call that
  does not return ends the sequence, and the pixel tests add up.\<close>

definition thenWideBar ::
  "(error + vertices \<times> tests) option \<Rightarrow> (vertices \<Rightarrow> (error + vertices \<times> tests) option)
     \<Rightarrow> (error + vertices \<times> tests) option" where
  "thenWideBar r f =
     (case r of
        None \<Rightarrow> None
      | Some (Inl e) \<Rightarrow> Some (Inl e)
      | Some (Inr (vs, tested)) \<Rightarrow>
          map_option (map_sum id (\<lambda>(vs', tested'). (vs', tested' @ tested))) (f vs))"

definition isLow :: "vertices \<Rightarrow> nat \<Rightarrow> nat \<Rightarrow> error + bool" where
  "isLow vs i j =
     andThen (vertexAt vs i) (\<lambda>p. andThen (vertexAt vs j) (\<lambda>q.
       Inr (\<bar>getY p - getY q\<bar> < 20)))"

definition correctVertices ::
  "bitmatrix \<Rightarrow> vertices \<Rightarrow> bool \<Rightarrow> (error + vertices \<times> tests) option" where
  "correctVertices matrix vs upsideDown =
     (case isLow vs 4 5 of
        Inl e \<Rightarrow> Some (Inl e)
      | Inr isLowLeft \<Rightarrow>
     (case isLow vs 6 7 of
        Inl e \<Rightarrow> Some (Inl e)
      | Inr isLowRight \<Rightarrow>
        if isLowLeft \<or> isLowRight then Some (Inl NotEnoughGuardPatterns)
        else
          map_option
            (\<lambda>r. andThen r (\<lambda>(vs, tested).
               andThen (findCrossingPoint vs 12 4 5 8 10 matrix) (\<lambda>vs.
               andThen (findCrossingPoint vs 13 4 5 9 11 matrix) (\<lambda>vs.
               andThen (findCrossingPoint vs 14 6 7 8 10 matrix) (\<lambda>vs.
               andThen (findCrossingPoint vs 15 6 7 9 11 matrix) (\<lambda>vs.
                 Inr (vs, tested)))))))
            (thenWideBar (thenWideBar (thenWideBar
              (findWideBarTopBottom matrix vs 0 0 8 17 (if upsideDown then 1 else - 1))
              (\<lambda>vs. findWideBarTopBottom matrix vs 1 0 8 17 (if upsideDown then - 1 else 1)))
              (\<lambda>vs. findWideBarTopBottom matrix vs 2 11 7 18 (if upsideDown then 1 else - 1)))
              (\<lambda>vs. findWideBarTopBottom matrix vs 3 11 7 18 (if upsideDown then - 1 else 1)))))"

subsection \<open>The collaborators\<close>

text \<open>
  \<^verbatim>\<open>ResultPoint::distance\<close>, \<^verbatim>\<open>PerspectiveTransform\<close>, \<^verbatim>\<open>GridSampler\<close> and
  \<^verbatim>\<open>LinesSampler\<close> are declared outside this file; the model takes them as
  parameters. \<open>sampleGrid\<close> stands for
  \<^verbatim>\<open>GridSampler::getInstance().sampleGrid(matrix, dimensionX, dimensionY, transform)\<close>
  applied to the transform that \<^verbatim>\<open>quadrilateralToQuadrilateral\<close> builds from its
  sixteen arguments, and \<open>linesSample\<close> for \<^verbatim>\<open>LinesSampler(linesMatrix, dimension).sample()\<close>.
\<close>

record quadrilaterals =
  x0 :: real  y0 :: real  x1 :: real  y1 :: real
  x2 :: real  y2 :: real  x3 :: real  y3 :: real
  x0p :: real  y0p :: real  x1p :: real  y1p :: real
  x2p :: real  y2p :: real  x3p :: real  y3p :: real

record collaborators =
  distance :: "point \<Rightarrow> point \<Rightarrow> real"
  sampleGrid :: "bitmatrix \<Rightarrow> int \<Rightarrow> int \<Rightarrow> quadrilaterals \<Rightarrow> error + bitmatrix"
  linesSample :: "bitmatrix \<Rightarrow> int \<Rightarrow> error + bitmatrix"

subsection \<open>Module width and dimensions\<close>

definition computeModuleWidth :: "collaborators \<Rightarrow> vertices \<Rightarrow> error + real" where
  "computeModuleWidth c vs =
     andThen (vertexAt vs 0) (\<lambda>v0. andThen (vertexAt vs 4) (\<lambda>v4.
     andThen (vertexAt vs 1) (\<lambda>v1. andThen (vertexAt vs 5) (\<lambda>v5.
     andThen (vertexAt vs 6) (\<lambda>v6. andThen (vertexAt vs 2) (\<lambda>v2.
     andThen (vertexAt vs 7) (\<lambda>v7. andThen (vertexAt vs 3) (\<lambda>v3.
       (let pixels1 = distance c v0 v4;
            pixels2 = distance c v1 v5;
            moduleWidth1 = (pixels1 + pixels2) / (17 * 2);
            pixels3 = distance c v6 v2;
            pixels4 = distance c v7 v3;
            moduleWidth2 = (pixels3 + pixels4) / (18 * 2)
        in Inr ((moduleWidth1 + moduleWidth2) / 2))))))))))"

text \<open>The quotient of \<^verbatim>\<open>int\<close> division in C++, which rounds towards zero.\<close>

definition cdiv :: "int \<Rightarrow> int \<Rightarrow> int" where
  "cdiv a b = sgn a * sgn b * (\<bar>a\<bar> div \<bar>b\<bar>)"

text \<open>\<^verbatim>\<open>>> 1\<close> on an \<^verbatim>\<open>int\<close> is the arithmetic shift, \<open>div 2\<close>.\<close>

definition computeDimension ::
  "collaborators \<Rightarrow> point \<Rightarrow> point \<Rightarrow> point \<Rightarrow> point \<Rightarrow> real \<Rightarrow> int" where
  "computeDimension c topLeft topRight bottomLeft bottomRight moduleWidth =
     (let topRowDimension = roundF (distance c topLeft topRight / moduleWidth);
          bottomRowDimension = roundF (distance c bottomLeft bottomRight / moduleWidth)
      in cdiv (((topRowDimension + bottomRowDimension) div 2) + 8) 17 * 17)"

definition computeYDimension ::
  "collaborators \<Rightarrow> point \<Rightarrow> point \<Rightarrow> point \<Rightarrow> point \<Rightarrow> real \<Rightarrow> int" where
  "computeYDimension c topLeft topRight bottomLeft bottomRight moduleWidth =
     (let leftColumnDimension = roundF (distance c topLeft bottomLeft / moduleWidth);
          rightColumnDimension = roundF (distance c topRight bottomRight / moduleWidth)
      in (leftColumnDimension + rightColumnDimension) div 2)"

subsection \<open>sampleLines\<close>

text \<open>The sixteen arguments of \<^verbatim>\<open>quadrilateralToQuadrilateral\<close>, in the order of the
  call. The parameters are named as in the source:
  \<^verbatim>\<open>sampleLines(vertices, int dimensionY, int dimension)\<close>.\<close>

definition sampleQuadrilaterals :: "vertices \<Rightarrow> int \<Rightarrow> int \<Rightarrow> error + quadrilaterals" where
  "sampleQuadrilaterals vs dimensionY dimension =
     (let sampleDimensionX = dimension * 8;
          sampleDimensionY = dimensionY * 4
      in andThen (vertexAt vs 12) (\<lambda>v12. andThen (vertexAt vs 14) (\<lambda>v14.
         andThen (vertexAt vs 13) (\<lambda>v13. andThen (vertexAt vs 15) (\<lambda>v15.
           Inr \<lparr>x0 = 0, y0 = 0,
                x1 = of_int sampleDimensionX, y1 = 0,
                x2 = 0, y2 = of_int sampleDimensionY,
                x3 = of_int sampleDimensionX, y3 = of_int sampleDimensionY,
                x0p = getX v12, y0p = getY v12,
                x1p = getX v14, y1p = getY v14,
                x2p = getX v13, y2p = getY v13,
                x3p = getX v15, y3p = getY v15\<rparr>)))))"

definition sampleLines ::
  "collaborators \<Rightarrow> bitmatrix \<Rightarrow> vertices \<Rightarrow> int \<Rightarrow> int \<Rightarrow> error + bitmatrix" where
  "sampleLines c blackMatrix vs dimensionY dimension =
     (let sampleDimensionX = dimension * 8;
          sampleDimensionY = dimensionY * 4
      in andThen (sampleQuadrilaterals vs dimensionY dimension) (\<lambda>transform.
           sampleGrid c blackMatrix sampleDimensionX sampleDimensionY transform))"

subsection \<open>detect\<close>

record detectorResult =
  bits :: bitmatrix
  points :: "point option list"

text \<open>Lines 92 to 110 of \<^verbatim>\<open>detect\<close>: the search for the vertices, first upright and
  then rotated by 180 degrees, and their correction.\<close>

definition locateVertices :: "bitmatrix \<Rightarrow> (error + vertices \<times> tests) option" where
  "locateVertices matrix =
     (let rowStep = 8
      in do {
        vs \<leftarrow> findVertices matrix rowStep;
        r \<leftarrow> (if vs = [] then do {
                 \<comment> \<open>Maybe the image is rotated 180 degrees?\<close>
                 vs' \<leftarrow> findVertices180 matrix rowStep;
                 if vs' \<noteq> [] then correctVertices matrix vs' True else Some (Inr (vs', []))
               } else correctVertices matrix vs False);
        Some (andThen r (\<lambda>(vs, tested).
          if vs = [] then Inl NoVerticesFound else Inr (vs, tested)))
      })"

text \<open>Lines 112 to 124: the module width and the two dimensions.\<close>

record geometry =
  moduleWidth :: real
  dimension :: int
  yDimension :: int

definition measureSymbol :: "collaborators \<Rightarrow> vertices \<Rightarrow> error + geometry" where
  "measureSymbol c vs =
     andThen (computeModuleWidth c vs) (\<lambda>moduleWidth.
       if moduleWidth < 1 then Inl BadModuleWidth
       else
         andThen (vertexAt vs 12) (\<lambda>v12. andThen (vertexAt vs 14) (\<lambda>v14.
         andThen (vertexAt vs 13) (\<lambda>v13. andThen (vertexAt vs 15) (\<lambda>v15.
           (let dimension = computeDimension c v12 v14 v13 v15 moduleWidth
            in if dimension < 1 then Inl BadDimension
               else
                 (let yDimension = max (computeYDimension c v12 v14 v13 v15 moduleWidth) dimension
                  in Inr \<lparr>moduleWidth = moduleWidth, dimension = dimension,
                          yDimension = yDimension\<rparr>)))))))"

text \<open>Lines 126 to 137: sampling, and the result.\<close>

definition sampleSymbol ::
  "collaborators \<Rightarrow> bitmatrix \<Rightarrow> vertices \<Rightarrow> geometry \<Rightarrow> error + detectorResult" where
  "sampleSymbol c blackMatrix vs g =
     andThen (sampleLines c blackMatrix vs (dimension g) (yDimension g)) (\<lambda>linesMatrix.
     andThen (linesSample c linesMatrix (dimension g)) (\<lambda>linesGrid.
       Inr \<lparr>bits = linesGrid,
            points =
              [newResultPoint 0 (of_nat (getHeight linesMatrix)),
               newResultPoint 0 0,
               newResultPoint (of_nat (getWidth linesMatrix)) 0,
               newResultPoint (of_nat (getWidth linesMatrix)) (of_nat (getHeight linesMatrix))]\<rparr>))"

text \<open>
  The detector object has one field, \<^verbatim>\<open>image_\<close> (here \<open>image'\<close>); \<^verbatim>\<open>getBlackMatrix()\<close> of the
  \<^verbatim>\<open>BinaryBitmap\<close> it refers to is declared outside this file, and the field is
  modelled by the matrix that call returns. \<^verbatim>\<open>detect\<close> returns its result together
  with the object as the call leaves it.
\<close>

record detector =
  image' :: bitmatrix

definition detect ::
  "collaborators \<Rightarrow> detector \<Rightarrow> (error + detectorResult) option \<times> detector" where
  "detect c this =
     (let matrix = image' this
      in (map_option (\<lambda>located.
            andThen located (\<lambda>(vs, tested).
            andThen (measureSymbol c vs) (\<lambda>g.
              sampleSymbol c (image' this) vs g)))
          (locateVertices matrix), this))"

section \<open>Test images\<close>

text \<open>A matrix given by its rows, white outside.\<close>

definition matrixOfRows :: "nat \<Rightarrow> bool list list \<Rightarrow> bitmatrix" where
  "matrixOfRows w rows =
     \<lparr>getWidth = w, getHeight = length rows,
      get = (\<lambda>x y. 0 \<le> x \<and> x < int w \<and> 0 \<le> y \<and> y < int (length rows) \<and> rows ! nat y ! nat x)\<rparr>"



text \<open>A single white pixel.\<close>

definition whitePixel :: bitmatrix where
  "whitePixel = matrixOfRows 1 [[False]]"


text \<open>
  An image of 37 by 41 pixels. Rows 16 and 40 hold, after one white pixel, the start
  pattern and the stop pattern at one pixel per module and a last white pixel. From
  the wide bar and the first thin bar of the stop pattern in row 16 two black
  diagonals, four pixels apart, run up and to the right, one pixel per row, to row 5.
\<close>

definition guardRow :: "bool list" where
  "guardRow =
     [False,
      True, True, True, True, True, True, True, True, False, True, False, True, False, True,
      False, False, False,
      True, True, True, True, True, True, True, False, True, False, False, False, True, False,
      True, False, False, True,
      False]"

definition skewedImage :: bitmatrix where
  "skewedImage =
     \<lparr>getWidth = 37, getHeight = 41,
      get = (\<lambda>x y. 0 \<le> x \<and> x < 37 \<and>
               ((y = 16 \<or> y = 40) \<and> guardRow ! nat x
                \<or> 5 \<le> y \<and> y < 16 \<and> (x = 38 - y \<or> x = 42 - y)))\<rparr>"

text \<open>The vertices that \<^verbatim>\<open>findVertices\<close> finds in it.\<close>

definition skewedVertices :: vertices where
  "skewedVertices =
     [Some \<lparr>getX = 1, getY = 16\<rparr>, Some \<lparr>getX = 1, getY = 40\<rparr>,
      Some \<lparr>getX = 36, getY = 16\<rparr>, Some \<lparr>getX = 36, getY = 40\<rparr>,
      Some \<lparr>getX = 18, getY = 16\<rparr>, Some \<lparr>getX = 18, getY = 40\<rparr>,
      Some \<lparr>getX = 18, getY = 16\<rparr>, Some \<lparr>getX = 18, getY = 40\<rparr>,
      None, None, None, None, None, None, None, None]"

text \<open>
  An image of 54 by 49 pixels with an upright symbol in rows 16 to 40, one pixel per
  module: a white pixel, the start pattern, 17 modules of data (bars and spaces of
  2, 3, 2, 3, 3 and 4 modules), the stop pattern and a white pixel.
\<close>

definition symbolRow :: "bool list" where
  "symbolRow =
     [False,
      True, True, True, True, True, True, True, True, False, True, False, True, False, True,
      False, False, False,
      True, True, False, False, False, True, True, False, False, False, True, True, True,
      False, False, False, False,
      True, True, True, True, True, True, True, False, True, False, False, False, True, False,
      True, False, False, True,
      False]"

definition symbolImage :: bitmatrix where
  "symbolImage =
     \<lparr>getWidth = 54, getHeight = 49,
      get = (\<lambda>x y. 0 \<le> x \<and> x < 54 \<and> 16 \<le> y \<and> y \<le> 40 \<and> symbolRow ! nat x)\<rparr>"

text \<open>The vertices \<^verbatim>\<open>findVertices\<close> finds in it, and the vector after
  \<^verbatim>\<open>correctVertices\<close>.\<close>

definition symbolVertices :: vertices where
  "symbolVertices =
     [Some \<lparr>getX = 1, getY = 16\<rparr>, Some \<lparr>getX = 1, getY = 40\<rparr>,
      Some \<lparr>getX = 53, getY = 16\<rparr>, Some \<lparr>getX = 53, getY = 40\<rparr>,
      Some \<lparr>getX = 18, getY = 16\<rparr>, Some \<lparr>getX = 18, getY = 40\<rparr>,
      Some \<lparr>getX = 35, getY = 16\<rparr>, Some \<lparr>getX = 35, getY = 40\<rparr>,
      None, None, None, None, None, None, None, None]"

definition correctedVertices :: vertices where
  "correctedVertices =
     [Some \<lparr>getX = 1, getY = 16\<rparr>, Some \<lparr>getX = 1, getY = 40\<rparr>,
      Some \<lparr>getX = 53, getY = 16\<rparr>, Some \<lparr>getX = 53, getY = 40\<rparr>,
      Some \<lparr>getX = 18, getY = 16\<rparr>, Some \<lparr>getX = 18, getY = 40\<rparr>,
      Some \<lparr>getX = 35, getY = 16\<rparr>, Some \<lparr>getX = 35, getY = 40\<rparr>,
      Some \<lparr>getX = 5, getY = 16\<rparr>, Some \<lparr>getX = 5, getY = 40\<rparr>,
      Some \<lparr>getX = 39, getY = 16\<rparr>, Some \<lparr>getX = 39, getY = 40\<rparr>,
      Some \<lparr>getX = 18, getY = 16\<rparr>, Some \<lparr>getX = 18, getY = 40\<rparr>,
      Some \<lparr>getX = 35, getY = 16\<rparr>, Some \<lparr>getX = 35, getY = 40\<rparr>]"

text \<open>
  The same image turned by 180 degrees: the symbol is in rows 8 to 32 and each of its
  rows is \<open>symbolRow\<close> from right to left. Below it the vertices
  \<^verbatim>\<open>findVertices180\<close> finds there.
\<close>

definition rotatedImage :: bitmatrix where
  "rotatedImage =
     \<lparr>getWidth = 54, getHeight = 49,
      get = (\<lambda>x y. 0 \<le> x \<and> x < 54 \<and> 8 \<le> y \<and> y \<le> 32 \<and> rev symbolRow ! nat x)\<rparr>"

definition rotatedVertices :: vertices where
  "rotatedVertices =
     [Some \<lparr>getX = 53, getY = 32\<rparr>, Some \<lparr>getX = 53, getY = 8\<rparr>,
      Some \<lparr>getX = 1, getY = 32\<rparr>, Some \<lparr>getX = 1, getY = 8\<rparr>,
      Some \<lparr>getX = 36, getY = 32\<rparr>, Some \<lparr>getX = 36, getY = 8\<rparr>,
      Some \<lparr>getX = 19, getY = 32\<rparr>, Some \<lparr>getX = 19, getY = 8\<rparr>,
      None, None, None, None, None, None, None, None]"

text \<open>Modelled from the spec: \<^verbatim>\<open>ResultPoint::distance\<close>, which this file calls but does
  not define, as the distance between two points.\<close>

definition euclidean :: "point \<Rightarrow> point \<Rightarrow> real" where
  "euclidean p q = sqrt ((getX p - getX q)\<^sup>2 + (getY p - getY q)\<^sup>2)"

text \<open>Stand-ins for the two samplers, which this file does not define: the grid
  sampler returns a white matrix of the size it is asked for, the lines sampler the
  matrix it is given.\<close>

definition whiteMatrix :: "nat \<Rightarrow> nat \<Rightarrow> bitmatrix" where
  "whiteMatrix w h = \<lparr>getWidth = w, getHeight = h, get = (\<lambda>x y. False)\<rparr>"

definition testCollaborators :: collaborators where
  "testCollaborators =
     \<lparr>distance = euclidean,
      sampleGrid = (\<lambda>matrix dimensionX dimensionY transform.
                      Inr (whiteMatrix (nat dimensionX) (nat dimensionY))),
      linesSample = (\<lambda>linesMatrix d. Inr linesMatrix)\<rparr>"

text \<open>A vertex vector whose codeword area has no width: the stop pattern follows the
  start pattern at once.\<close>

definition narrowVertices :: vertices where
  "narrowVertices =
     [Some \<lparr>getX = 1, getY = 16\<rparr>, Some \<lparr>getX = 1, getY = 40\<rparr>,
      Some \<lparr>getX = 36, getY = 16\<rparr>, Some \<lparr>getX = 36, getY = 40\<rparr>,
      Some \<lparr>getX = 18, getY = 16\<rparr>, Some \<lparr>getX = 18, getY = 40\<rparr>,
      Some \<lparr>getX = 18, getY = 16\<rparr>, Some \<lparr>getX = 18, getY = 40\<rparr>,
      Some \<lparr>getX = 5, getY = 16\<rparr>, Some \<lparr>getX = 5, getY = 40\<rparr>,
      Some \<lparr>getX = 22, getY = 16\<rparr>, Some \<lparr>getX = 22, getY = 40\<rparr>,
      Some \<lparr>getX = 18, getY = 16\<rparr>, Some \<lparr>getX = 18, getY = 40\<rparr>,
      Some \<lparr>getX = 18, getY = 16\<rparr>, Some \<lparr>getX = 18, getY = 40\<rparr>]"


text \<open>The precondition of \<^verbatim>\<open>correctVertices\<close> in the words of the specification: the
  outer corner in slot \<open>k\<close> and the inner corner paired with it, in slot \<open>k + 4\<close>, are
  less than 20 rows apart.\<close>

definition pairedRowsClose :: "vertices \<Rightarrow> nat \<Rightarrow> bool" where
  "pairedRowsClose vs k =
     (case (vertexAt vs k, vertexAt vs (k + 4)) of
        (Inr outer, Inr inner) \<Rightarrow> \<bar>getY outer - getY inner\<bar> < 20
      | _ \<Rightarrow> False)"

section \<open>Properties\<close>

subsection \<open>The variance score\<close>

lemma variance_caps_truncated:
  "MAX_AVG_VARIANCE = \<lfloor>(2 ^ 8 :: real) * (42 / 100)\<rfloor>"
  "MAX_INDIVIDUAL_VARIANCE = \<lfloor>(2 ^ 8 :: real) * (8 / 10)\<rfloor>"
  by (simp_all add: MAX_AVG_VARIANCE_def MAX_INDIVIDUAL_VARIANCE_def floor_eq_iff)

lemma int32_id: "- (2 ^ 31) \<le> i \<Longrightarrow> i < 2 ^ 31 \<Longrightarrow> int32 i = i"
  by (simp add: int32_def)

lemma pmvLoop_closed:
  assumes b: "\<And>i. i < length counters \<Longrightarrow>
                int (counters ! i) * 2 ^ 8 < 2 ^ 31 \<and> 0 \<le> int (pattern ! i) * u
                \<and> int (pattern ! i) * u < 2 ^ 31"
    and "0 \<le> tv"
    and "tv + (\<Sum>i = x ..< length counters. elementVariance counters pattern u i) < 2 ^ 31"
  shows "pmvLoop counters pattern u cap x tv =
     (if \<exists>i. x \<le> i \<and> i < length counters \<and> cap < elementVariance counters pattern u i
      then None
      else Some (tv + (\<Sum>i = x ..< length counters. elementVariance counters pattern u i)))"
  using assms(2,3)
proof (induction "length counters - x" arbitrary: x tv)
  case 0
  then show ?case by (subst pmvLoop.simps) auto
next
  case (Suc k)
  then have xl: "x < length counters" by simp
  let ?v = "elementVariance counters pattern u x"
  have sm: "(\<Sum>i = x ..< length counters. elementVariance counters pattern u i) =
            ?v + (\<Sum>i = x + 1 ..< length counters. elementVariance counters pattern u i)"
    using xl by (simp add: sum.atLeast_Suc_lessThan)
  have rest0: "0 \<le> (\<Sum>i = x + 1 ..< length counters. elementVariance counters pattern u i)"
    by (rule sum_nonneg) (simp add: elementVariance_def)
  have v0: "0 \<le> ?v" by (simp add: elementVariance_def)
  from Suc.prems sm rest0 have vb: "tv + ?v < 2 ^ 31" by simp
  from b[OF xl] have c: "int32 (int (counters ! x) * 2 ^ 8) = int (counters ! x) * 2 ^ 8"
    and s: "int32 (int (pattern ! x) * u) = int (pattern ! x) * u"
    by (auto intro!: int32_id)
  have v: "int32 (if int (counters ! x) * 2 ^ 8 > int (pattern ! x) * u
              then int (counters ! x) * 2 ^ 8 - int (pattern ! x) * u
              else int (pattern ! x) * u - int (counters ! x) * 2 ^ 8) = ?v"
  proof -
    have "(if int (counters ! x) * 2 ^ 8 > int (pattern ! x) * u
              then int (counters ! x) * 2 ^ 8 - int (pattern ! x) * u
              else int (pattern ! x) * u - int (counters ! x) * 2 ^ 8) = ?v"
      by (simp add: elementVariance_def)
    moreover have "int32 ?v = ?v"
      using v0 vb Suc.prems(1) by (intro int32_id) simp_all
    ultimately show ?thesis by simp
  qed
  have t: "int32 (tv + ?v) = tv + ?v"
    using v0 vb Suc.prems(1) by (intro int32_id) simp_all
  have unf: "pmvLoop counters pattern u cap x tv =
      (if ?v > cap then None else pmvLoop counters pattern u cap (x + 1) (tv + ?v))"
    apply (subst pmvLoop.simps)
    apply (unfold Let_def c s v t)
    using xl by simp
  show ?case
  proof (cases "cap < ?v")
    case True
    then have "\<exists>i. x \<le> i \<and> i < length counters \<and> cap < elementVariance counters pattern u i"
      using xl by auto
    moreover have "pmvLoop counters pattern u cap x tv = None"
      using True by (simp add: unf)
    ultimately show ?thesis by simp
  next
    case False
    have step: "pmvLoop counters pattern u cap x tv = pmvLoop counters pattern u cap (x + 1) (tv + ?v)"
      using False by (simp add: unf)
    have k: "k = length counters - (x + 1)" using Suc.hyps(2) by simp
    have IH: "pmvLoop counters pattern u cap (x + 1) (tv + ?v) =
         (if \<exists>i. x + 1 \<le> i \<and> i < length counters \<and> cap < elementVariance counters pattern u i
          then None
          else Some (tv + ?v + (\<Sum>i = x + 1 ..< length counters. elementVariance counters pattern u i)))"
      using Suc.hyps(1)[OF k] Suc.prems v0 sm by simp
    have ex: "(\<exists>i. x \<le> i \<and> i < length counters \<and> cap < elementVariance counters pattern u i) \<longleftrightarrow>
              (\<exists>i. x + 1 \<le> i \<and> i < length counters \<and> cap < elementVariance counters pattern u i)"
      using False by (metis Suc_eq_plus1 Suc_leI le_neq_implies_less add_leD1)
    show ?thesis unfolding step IH ex sm by (auto simp add: add.assoc)
  qed
qed

lemma pmvTotals_fold:
  "k \<le> length counters \<Longrightarrow> k \<le> length pattern \<Longrightarrow>
   fold (\<lambda>i (total', patternLength). (total' + counters ! i, patternLength + pattern ! i))
     [0 ..< k] (0, 0) = (sum_list (take k counters), sum_list (take k pattern))"
  by (induction k) (simp_all add: take_Suc_conv_app_nth)

lemma pmvTotals_sum:
  "length pattern = length counters \<Longrightarrow>
   pmvTotals counters pattern = (sum_list counters, sum_list pattern)"
  by (simp add: pmvTotals_def pmvTotals_fold)

lemma nth_le_sum_list: "i < length xs \<Longrightarrow> xs ! i \<le> sum_list (xs :: nat list)"
  by (simp add: member_le_sum_list)

lemma elementVariance_sum_le:
  assumes "length pattern = length counters" and "0 \<le> u"
  shows "(\<Sum>i = 0 ..< length counters. elementVariance counters pattern u i)
         \<le> int (sum_list counters) * 2 ^ 8 + int (sum_list pattern) * u"
proof -
  have "(\<Sum>i = 0 ..< length counters. elementVariance counters pattern u i)
        \<le> (\<Sum>i = 0 ..< length counters. int (counters ! i) * 2 ^ 8 + int (pattern ! i) * u)"
    using assms(2) by (intro sum_mono) (simp add: elementVariance_def abs_le_iff add_nonneg_nonneg)
  also have "\<dots> = int (\<Sum>i = 0 ..< length counters. counters ! i) * 2 ^ 8
                  + int (\<Sum>i = 0 ..< length pattern. pattern ! i) * u"
    by (simp add: sum.distrib sum_distrib_right assms(1))
  also have "\<dots> = int (sum_list counters) * 2 ^ 8 + int (sum_list pattern) * u"
    by (simp add: sum_list_sum_nth)
  finally show ?thesis .
qed

lemma patternMatchVariance_closed:
  assumes len: "length pattern = length counters" and P: "0 < sum_list pattern"
    and T: "sum_list counters < 2 ^ 22" and m0: "0 \<le> miv"
    and mu: "miv * int ((sum_list counters * 2 ^ 8) div sum_list pattern) < 2 ^ 31"
  shows "patternMatchVariance counters pattern miv =
     (let unitBarWidth = int ((sum_list counters * 2 ^ 8) div sum_list pattern);
          cap = (miv * unitBarWidth) div 2 ^ 8
      in if sum_list counters < sum_list pattern then INT_MAX
         else if \<exists>i < length counters. cap < elementVariance counters pattern unitBarWidth i
         then INT_MAX
         else (\<Sum>i < length counters. elementVariance counters pattern unitBarWidth i)
                div int (sum_list counters))"
proof (cases "sum_list counters < sum_list pattern")
  case True
  then show ?thesis by (simp add: patternMatchVariance_def pmvTotals_sum[OF len] Let_def)
next
  case False
  define Tt where "Tt = sum_list counters"
  define Pp where "Pp = sum_list pattern"
  define u where "u = int ((Tt * 2 ^ 8) div Pp)"
  define S where "S = (\<Sum>i = 0 ..< length counters. elementVariance counters pattern u i)"
  have T256: "Tt * 2 ^ 8 < 2 ^ 30" using T unfolding Tt_def by simp
  have m64: "(Tt * 2 ^ 8) mod 2 ^ 64 = Tt * 2 ^ 8"
    using T256 by (intro mod_less) (simp add: less_trans[OF T256])
  have u0: "0 \<le> u" by (simp add: u_def)
  have uP: "int Pp * u \<le> int Tt * 2 ^ 8"
  proof -
    have "Pp * ((Tt * 2 ^ 8) div Pp) \<le> Tt * 2 ^ 8" by simp
    then have "int (Pp * ((Tt * 2 ^ 8) div Pp)) \<le> int (Tt * 2 ^ 8)" by (rule of_nat_mono)
    then show ?thesis by (simp add: u_def)
  qed
  have ule: "u \<le> int Tt * 2 ^ 8"
  proof -
    have "(Tt * 2 ^ 8) div Pp \<le> Tt * 2 ^ 8" by (rule div_le_dividend)
    then have "int ((Tt * 2 ^ 8) div Pp) \<le> int (Tt * 2 ^ 8)" by (rule of_nat_mono)
    then show ?thesis by (simp add: u_def)
  qed
  have iT: "int Tt * 2 ^ 8 < 2 ^ 30"
  proof -
    from T256 have "int (Tt * 2 ^ 8) < int (2 ^ 30)" by (rule of_nat_less_iff[THEN iffD2])
    then show ?thesis by simp
  qed
  have u32: "int32 u = u" using u0 ule iT by (intro int32_id) simp_all
  have cap32: "int32 (miv * u) = miv * u"
    using m0 u0 mu unfolding u_def Tt_def Pp_def
    by (intro int32_id) (auto intro: order_trans[OF _ mult_nonneg_nonneg])
  have el: "int (counters ! i) * 2 ^ 8 < 2 ^ 31 \<and> 0 \<le> int (pattern ! i) * u
            \<and> int (pattern ! i) * u < 2 ^ 31" if "i < length counters" for i
  proof -
    from that have "counters ! i \<le> Tt" unfolding Tt_def by (rule nth_le_sum_list)
    then have a: "int (counters ! i) * 2 ^ 8 \<le> int Tt * 2 ^ 8" by simp
    from that len have "pattern ! i \<le> Pp" unfolding Pp_def by (intro nth_le_sum_list) simp
    then have "int (pattern ! i) * u \<le> int Pp * u" using u0 by (intro mult_right_mono) simp_all
    with uP have b: "int (pattern ! i) * u \<le> int Tt * 2 ^ 8" by linarith
    from a b iT u0 show ?thesis by (auto intro: mult_nonneg_nonneg)
  qed
  have Sle: "S \<le> int Tt * 2 ^ 8 + int Pp * u"
    unfolding S_def Tt_def Pp_def using len u0 by (rule elementVariance_sum_le)
  have S0: "0 \<le> S" unfolding S_def by (rule sum_nonneg) (simp add: elementVariance_def)
  have S31: "S < 2 ^ 31" using Sle uP iT by simp
  have loop: "pmvLoop counters pattern u cap 0 0 =
     (if \<exists>i. 0 \<le> i \<and> i < length counters \<and> cap < elementVariance counters pattern u i
      then None else Some (0 + S))" for cap
    unfolding S_def by (rule pmvLoop_closed) (use el S31[unfolded S_def] in auto)
  have Tpos: "0 < Tt" using False P unfolding Tt_def by linarith
  have fin: "int32 ((S mod 18446744073709551616) div int Tt) = S div int Tt"
  proof -
    have "S mod 18446744073709551616 = S" using S0 S31 by (intro mod_pos_pos_trivial) simp_all
    moreover have "0 \<le> S div int Tt" using S0 Tpos by (simp add: pos_imp_zdiv_nonneg_iff)
    moreover have "S div int Tt \<le> S"
      using zdiv_mono2[of S 1 "int Tt"] S0 Tpos by simp
    ultimately show ?thesis using S31 by (simp add: int32_id)
  qed
  have Ssum: "S = (\<Sum>i < length counters. elementVariance counters pattern u i)"
    unfolding S_def by (simp add: atLeast0LessThan)
  show ?thesis
    using False
    unfolding patternMatchVariance_def pmvTotals_sum[OF len] Let_def prod.case
      Tt_def[symmetric] Pp_def[symmetric] m64 u_def[symmetric] u32 cap32 loop
    by (auto simp add: fin[unfolded Ssum] Ssum)
qed




lemma runsBefore_new:
  "runsBefore px x (\<not> px x) ns \<Longrightarrow> runsBefore px (x + 1) (px x) (1 # ns)"
  by (simp add: list_all_iff)









lemma patternMatchVariance_overflow:
  "patternMatchVariance [328968, 41121, 41121, 41121, 41121, 41121, 41121, 123363] START_PATTERN
     MAX_INDIVIDUAL_VARIANCE = INT_MAX"
  "sum_list [328968, 41121, 41121, 41121, 41121, 41121, 41121, 123363 :: nat] = 699057"
  by (simp_all add: patternMatchVariance_def pmvTotals_def pmvLoop.simps Let_def START_PATTERN_def
        MAX_INDIVIDUAL_VARIANCE_def upt_rec int32_def)



subsection \<open>The vertex search\<close>

lemma scanTopDown_returns:
  "0 < rowStep \<Longrightarrow> \<exists>r. scanTopDown findRow height rowStep i = Some r"
proof (induction "height - i" arbitrary: i rule: less_induct)
  case less
  show ?case
  proof (cases "i < height")
    case False
    then show ?thesis by (subst scanTopDown.simps) simp
  next
    case True
    show ?thesis
    proof (cases "findRow i")
      case (Some loc)
      with True show ?thesis by (subst scanTopDown.simps) simp
    next
      case None
      from True less.prems have "height - (i + rowStep) < height - i" by simp
      from less.hyps[OF this less.prems] obtain r
        where "scanTopDown findRow height rowStep (i + rowStep) = Some r" ..
      with True None show ?thesis by (subst scanTopDown.simps) simp
    qed
  qed
qed

lemma scanBottomUp_returns:
  "0 < rowStep \<Longrightarrow> \<exists>r. scanBottomUp findRow rowStep i = Some r"
proof (induction "nat i" arbitrary: i rule: less_induct)
  case less
  show ?case
  proof (cases "i > 0")
    case False
    then show ?thesis by (subst scanBottomUp.simps) simp
  next
    case True
    show ?thesis
    proof (cases "findRow (nat i)")
      case (Some loc)
      with True show ?thesis by (subst scanBottomUp.simps) simp
    next
      case None
      from True less.prems have "nat (i - int rowStep) < nat i" by simp
      from less.hyps[OF this less.prems] obtain r
        where "scanBottomUp findRow rowStep (i - int rowStep) = Some r" ..
      with True None show ?thesis by (subst scanBottomUp.simps) simp
    qed
  qed
qed

lemma storeCorners_cases:
  "storeCorners result a b scanned = (result, False)
   \<or> (\<exists>p q. storeCorners result a b scanned = (result[a := Some p, b := Some q], True))"
  by (auto simp add: storeCorners_def newResultPoint_def split: option.splits)

lemma upd8:
  "(replicate COUNT_VERTICES None)
     [a1 := Some p1, b1 := Some q1, a2 := Some p2, b2 := Some q2,
      a3 := Some p3, b3 := Some q3, a4 := Some p4, b4 := Some q4] ! k \<noteq> None"
  if "k \<in> {a1, b1, a2, b2, a3, b3, a4, b4}" "a1 < 16" "b1 < 16" "a2 < 16" "b2 < 16"
     "a3 < 16" "b3 < 16" "a4 < 16" "b4 < 16"
  using that by (auto simp add: nth_list_update COUNT_VERTICES_def)

lemma allEight_stored:
  "allEight ((replicate COUNT_VERTICES None)
     [a1 := Some p1, b1 := Some q1, a2 := Some p2, b2 := Some q2,
      a3 := Some p3, b3 := Some q3, a4 := Some p4, b4 := Some q4])"
  if "{0, 1, 2, 3, 4, 5, 6, 7} \<subseteq> {a1, b1, a2, b2, a3, b3, a4, b4}"
     "a1 < 16" "b1 < 16" "a2 < 16" "b2 < 16" "a3 < 16" "b3 < 16" "a4 < 16" "b4 < 16"
proof -
  let ?vs = "(replicate COUNT_VERTICES None)
     [a1 := Some p1, b1 := Some q1, a2 := Some p2, b2 := Some q2,
      a3 := Some p3, b3 := Some q3, a4 := Some p4, b4 := Some q4]"
  have len: "length ?vs = COUNT_VERTICES" by simp
  have "?vs ! k \<noteq> None" if "k < 8" for k
  proof -
    from \<open>k < 8\<close> have "k \<in> {0, 1, 2, 3, 4, 5, 6, 7}" by auto
    with that(1) have "k \<in> {a1, b1, a2, b2, a3, b3, a4, b4}"
      using \<open>{0, 1, 2, 3, 4, 5, 6, 7} \<subseteq> {a1, b1, a2, b2, a3, b3, a4, b4}\<close> by blast
    then show ?thesis
      using \<open>a1 < 16\<close> \<open>b1 < 16\<close> \<open>a2 < 16\<close> \<open>b2 < 16\<close> \<open>a3 < 16\<close> \<open>b3 < 16\<close> \<open>a4 < 16\<close> \<open>b4 < 16\<close>
      by (rule upd8)
  qed
  then have "list_all (\<lambda>v. v \<noteq> None) (take 8 ?vs)"
    using len by (simp add: list_all_length COUNT_VERTICES_def)
  with len show ?thesis by (simp add: allEight_def)
qed

text \<open>The shape shared by the four steps of both searches.\<close>

lemma step_cases:
  assumes "(if found then storeCorners result a b scanned else (result, found)) = (result', found')"
  shows "\<not> found' \<or> (found \<and> (\<exists>p q. result' = result[a := Some p, b := Some q]))"
  using assms storeCorners_cases[of result a b scanned] by (auto split: if_splits)

lemma four_steps_shape:
  fixes S1 S2 S3 S4 :: "((nat \<times> nat) \<times> nat) option option"
  assumes "(S1 \<bind> (\<lambda>scan1. case storeCorners r0 a1 b1 scan1 of (result1, found1) \<Rightarrow>
            (if found1 then S2 else Some None) \<bind> (\<lambda>scan2.
              case (if found1 then storeCorners result1 a2 b2 scan2 else (result1, found1)) of
                (result2, found2) \<Rightarrow>
            (if found2 then S3 else Some None) \<bind> (\<lambda>scan3.
              case (if found2 then storeCorners result2 a3 b3 scan3 else (result2, found2)) of
                (result3, found3) \<Rightarrow>
            (if found3 then S4 else Some None) \<bind> (\<lambda>scan4.
              case (if found3 then storeCorners result3 a4 b4 scan4 else (result3, found3)) of
                (result4, found4) \<Rightarrow>
            Some (if \<not> found4 then [] else result4)))))) = Some vs"
  shows "vs = [] \<or> (\<exists>p1 q1 p2 q2 p3 q3 p4 q4.
           vs = r0[a1 := Some p1, b1 := Some q1, a2 := Some p2, b2 := Some q2,
                   a3 := Some p3, b3 := Some q3, a4 := Some p4, b4 := Some q4])"
proof -
  from assms obtain s1 where "S1 = Some s1" by (cases S1) simp_all
  note d1 = assms[unfolded this bind.bind_lunit]
  obtain r1 f1 where st1: "storeCorners r0 a1 b1 s1 = (r1, f1)" by force
  note d1 = d1[unfolded st1 prod.case]
  from d1 obtain s2 where e2: "(if f1 then S2 else Some None) = Some s2"
    by (cases "if f1 then S2 else Some None") simp_all
  note d2 = d1[unfolded e2 bind.bind_lunit]
  obtain r2 f2 where st2: "(if f1 then storeCorners r1 a2 b2 s2 else (r1, f1)) = (r2, f2)" by force
  note d2 = d2[unfolded st2 prod.case]
  from d2 obtain s3 where e3: "(if f2 then S3 else Some None) = Some s3"
    by (cases "if f2 then S3 else Some None") simp_all
  note d3 = d2[unfolded e3 bind.bind_lunit]
  obtain r3 f3 where st3: "(if f2 then storeCorners r2 a3 b3 s3 else (r2, f2)) = (r3, f3)" by force
  note d3 = d3[unfolded st3 prod.case]
  from d3 obtain s4 where e4: "(if f3 then S4 else Some None) = Some s4"
    by (cases "if f3 then S4 else Some None") simp_all
  note d4 = d3[unfolded e4 bind.bind_lunit]
  obtain r4 f4 where st4: "(if f3 then storeCorners r3 a4 b4 s4 else (r3, f3)) = (r4, f4)" by force
  note d4 = d4[unfolded st4 prod.case]
  from d4 have vs: "vs = (if \<not> f4 then [] else r4)" by simp
  show ?thesis
  proof (cases f4)
    case False
    with vs show ?thesis by simp
  next
    case True
    from step_cases[OF st4] True obtain p4 q4 where f3 and r4: "r4 = r3[a4 := Some p4, b4 := Some q4]"
      by auto
    from step_cases[OF st3] \<open>f3\<close> obtain p3 q3 where f2 and r3: "r3 = r2[a3 := Some p3, b3 := Some q3]"
      by auto
    from step_cases[OF st2] \<open>f2\<close> obtain p2 q2 where f1 and r2: "r2 = r1[a2 := Some p2, b2 := Some q2]"
      by auto
    from step_cases[of True r0 a1 b1 s1 r1 f1] st1 \<open>f1\<close>
    obtain p1 q1 where r1: "r1 = r0[a1 := Some p1, b1 := Some q1]"
      by auto
    from vs True have "vs = r0[a1 := Some p1, b1 := Some q1, a2 := Some p2, b2 := Some q2,
                   a3 := Some p3, b3 := Some q3, a4 := Some p4, b4 := Some q4]"
      unfolding r4 r3 r2 r1 by simp
    then show ?thesis by blast
  qed
qed

lemma findVertices_shape:
  assumes "findVertices matrix rowStep = Some vs"
  shows "vs = [] \<or> allEight vs"
  using four_steps_shape[OF assms[unfolded findVertices_def Let_def]]
  by (auto intro!: allEight_stored)

lemma findVertices180_shape:
  assumes "findVertices180 matrix rowStep = Some vs"
  shows "vs = [] \<or> allEight vs"
  using four_steps_shape[OF assms[unfolded findVertices180_def Let_def]]
  by (auto intro!: allEight_stored)

lemma four_steps_returns:
  fixes S1 S2 S3 S4 :: "((nat \<times> nat) \<times> nat) option option"
  assumes "S1 \<noteq> None" "S2 \<noteq> None" "S3 \<noteq> None" "S4 \<noteq> None"
  shows "(S1 \<bind> (\<lambda>scan1. case storeCorners r0 a1 b1 scan1 of (result1, found1) \<Rightarrow>
            (if found1 then S2 else Some None) \<bind> (\<lambda>scan2.
              case (if found1 then storeCorners result1 a2 b2 scan2 else (result1, found1)) of
                (result2, found2) \<Rightarrow>
            (if found2 then S3 else Some None) \<bind> (\<lambda>scan3.
              case (if found2 then storeCorners result2 a3 b3 scan3 else (result2, found2)) of
                (result3, found3) \<Rightarrow>
            (if found3 then S4 else Some None) \<bind> (\<lambda>scan4.
              case (if found3 then storeCorners result3 a4 b4 scan4 else (result3, found3)) of
                (result4, found4) \<Rightarrow>
            Some (if \<not> found4 then [] else (result4 :: vertices))))))) \<noteq> None"
  using assms by (auto split: prod.splits)

lemma findVertices_returns:
  "0 < rowStep \<Longrightarrow> findVertices matrix rowStep \<noteq> None"
  unfolding findVertices_def Let_def
  by (rule four_steps_returns)
     (use scanTopDown_returns scanBottomUp_returns in fastforce)+

lemma findVertices180_returns:
  "0 < rowStep \<Longrightarrow> findVertices180 matrix rowStep \<noteq> None"
  unfolding findVertices180_def Let_def
  by (rule four_steps_returns)
     (use scanTopDown_returns scanBottomUp_returns in fastforce)+


lemma scanTopDown_stuck:
  "scanTopDown findRow height rowStep i = Some r \<Longrightarrow> rowStep = 0 \<longrightarrow> i < height \<longrightarrow> findRow i \<noteq> None"
proof (erule scanTopDown.raw_induct[rotated 1, where P = "\<lambda>findRow height rowStep i r. rowStep = 0 \<longrightarrow> i < height \<longrightarrow> findRow i \<noteq> None"])
  fix scan :: "(nat \<Rightarrow> (nat \<times> nat) option) \<Rightarrow> nat \<Rightarrow> nat \<Rightarrow> nat \<Rightarrow> ((nat \<times> nat) \<times> nat) option option"
    and findRow height rowStep i r
  assume IH: "\<And>findRow height rowStep i r. scan findRow height rowStep i = Some r \<Longrightarrow>
                rowStep = 0 \<longrightarrow> i < height \<longrightarrow> findRow i \<noteq> None"
    and eq: "(if i < height then case findRow i of None \<Rightarrow> scan findRow height rowStep (i + rowStep)
                | Some loc \<Rightarrow> Some (Some (loc, i)) else Some None) = Some r"
  show "rowStep = 0 \<longrightarrow> i < height \<longrightarrow> findRow i \<noteq> None"
  proof (intro impI notI)
    assume z: "rowStep = 0" and lt: "i < height" and none: "findRow i = None"
    with eq have "scan findRow height 0 i = Some r" by simp
    from IH[OF this] lt none show False by simp
  qed
qed

lemma scanBottomUp_stuck:
  "scanBottomUp findRow rowStep i = Some r \<Longrightarrow> rowStep = 0 \<longrightarrow> 0 < i \<longrightarrow> findRow (nat i) \<noteq> None"
proof (erule scanBottomUp.raw_induct[rotated 1, where P = "\<lambda>findRow rowStep i r. rowStep = 0 \<longrightarrow> 0 < i \<longrightarrow> findRow (nat i) \<noteq> None"])
  fix scan :: "(nat \<Rightarrow> (nat \<times> nat) option) \<Rightarrow> nat \<Rightarrow> int \<Rightarrow> ((nat \<times> nat) \<times> nat) option option"
    and findRow rowStep i r
  assume IH: "\<And>findRow rowStep i r. scan findRow rowStep i = Some r \<Longrightarrow>
                rowStep = 0 \<longrightarrow> 0 < i \<longrightarrow> findRow (nat i) \<noteq> None"
    and eq: "(if 0 < i then case findRow (nat i) of None \<Rightarrow> scan findRow rowStep (i - int rowStep)
                | Some loc \<Rightarrow> Some (Some (loc, nat i)) else Some None) = Some r"
  show "rowStep = 0 \<longrightarrow> 0 < i \<longrightarrow> findRow (nat i) \<noteq> None"
  proof (intro impI notI)
    assume z: "rowStep = 0" and lt: "0 < i" and none: "findRow (nat i) = None"
    with eq have "scan findRow 0 i = Some r" by simp
    from IH[OF this] lt none show False by simp
  qed
qed

text \<open>
  C2. For a row step from 1 to \<open>2 ^ 31 - 1\<close>, \<^verbatim>\<open>findVertices\<close> and
  \<^verbatim>\<open>findVertices180\<close> return, and what they return is the empty vector or a vector
  of sixteen slots in which all of the slots 0 to 7 are filled. (Above that range the
  subtraction \<^verbatim>\<open>i -= rowStep\<close> on the \<^verbatim>\<open>int i\<close> of \<^verbatim>\<open>findVertices180\<close> wraps around,
  which the model leaves out.) Whatever the row step, a vector that is returned is
  empty or has the eight slots filled.
\<close>

theorem findVertices_all_or_nothing:
  assumes "0 < rowStep" and "rowStep < 2 ^ 31"
  shows "(\<exists>vs. findVertices matrix rowStep = Some vs \<and> (vs = [] \<or> allEight vs))
       \<and> (\<exists>vs. findVertices180 matrix rowStep = Some vs \<and> (vs = [] \<or> allEight vs))
       \<and> (\<forall>step vs. findVertices matrix step = Some vs \<or> findVertices180 matrix step = Some vs
             \<longrightarrow> vs = [] \<or> allEight vs)"
  using findVertices_returns[OF assms(1), of matrix] findVertices180_returns[OF assms(1), of matrix]
    findVertices_shape[of matrix] findVertices180_shape[of matrix]
  by fastforce

lemma findGuardPattern_whitePixel:
  "findGuardPattern whitePixel 0 0 (getWidth whitePixel) False START_PATTERN counters = None"
  by (simp add: findGuardPattern_def findGuardPatternLoop.simps whitePixel_def matrixOfRows_def
        START_PATTERN_def)

lemma findVertices_whitePixel_8: "findVertices whitePixel 8 = Some []"
  by (simp add: findVertices_def Let_def scanTopDown.simps findGuardPattern_whitePixel
        storeCorners_def)
     (simp add: whitePixel_def matrixOfRows_def scanTopDown.simps)

text \<open>With a row step of 0 the first loop of \<^verbatim>\<open>findVertices\<close> tests row 0 of the
  one-pixel image again and again: the function does not return.\<close>

theorem findVertices_rowStep_0_counterexample:
  "findVertices whitePixel 0 = None"
proof -
  let ?findRow = "\<lambda>i. findGuardPattern whitePixel 0 i (getWidth whitePixel) False START_PATTERN
                       (replicate (length START_PATTERN) 0)"
  have "scanTopDown ?findRow (getHeight whitePixel) 0 0 = None"
  proof (rule ccontr)
    assume "scanTopDown ?findRow (getHeight whitePixel) 0 0 \<noteq> None"
    then obtain r where "scanTopDown ?findRow (getHeight whitePixel) 0 0 = Some r" by auto
    from scanTopDown_stuck[OF this] show False
      by (simp add: findGuardPattern_whitePixel) (simp add: whitePixel_def matrixOfRows_def)
  qed
  then show ?thesis by (simp add: findVertices_def Let_def)
qed


subsection \<open>Line intersection\<close>




subsection \<open>Evaluation on the test images\<close>

lemmas eval_guard = findGuardPattern_def findGuardPatternLoop.simps
  patternMatchVariance_def pmvTotals_def pmvLoop.simps Let_def shiftCounters_def
  MAX_INDIVIDUAL_VARIANCE_def MAX_AVG_VARIANCE_def INT_MAX_def upt_rec int32_def
  START_PATTERN_def STOP_PATTERN_def

lemmas eval_vertices = findVertices_def START_PATTERN_def[THEN arg_cong, of length]
  STOP_PATTERN_def[THEN arg_cong, of length] scanTopDown.simps scanBottomUp.simps
  storeCorners_def newResultPoint_def COUNT_VERTICES_def Let_def

lemmas eval_round = roundF_def float32_def binade_def binadeUp.simps binadeDown.simps
  roundEven_def toInt_def Let_def power_int_def

lemma roundEven_of_int [simp]: "roundEven (of_int m) = m"
  by (simp add: roundEven_def)

lemma binadeUp_spec:
  assumes "0 \<le> e" and "e \<le> 127" and "2 ^ nat e \<le> a"
  shows "\<exists>n. binadeUp a e = int n \<and> n \<le> 127 \<and> 2 ^ n \<le> a \<and> (a < 2 ^ (n + 1) \<or> n = 127)"
  using assms
proof (induction "nat (127 - e)" arbitrary: e)
  case 0
  then have e: "e = 127" by simp
  show ?case
    using "0.prems" by (subst binadeUp.simps) (auto simp add: e intro!: exI[of _ 127])
next
  case (Suc k)
  then have lt: "e < 127" by simp
  have p: "(2 :: real) powi (e + 1) = 2 ^ (nat e + 1)"
    using Suc.prems(1) by (simp add: power_int_def nat_add_distrib)
  show ?case
  proof (cases "2 ^ (nat e + 1) \<le> a")
    case True
    have k: "k = nat (127 - (e + 1))" using Suc.hyps(2) by simp
    have n: "nat (e + 1) = nat e + 1" using Suc.prems(1) by (simp add: nat_add_distrib)
    from Suc.hyps(1)[OF k] Suc.prems lt True n
    have "\<exists>n. binadeUp a (e + 1) = int n \<and> n \<le> 127 \<and> 2 ^ n \<le> a
            \<and> (a < 2 ^ (n + 1) \<or> n = 127)"
      by simp
    moreover have "binadeUp a e = binadeUp a (e + 1)"
      using lt True by (subst binadeUp.simps) (simp add: p)
    ultimately show ?thesis by simp
  next
    case False
    then have "binadeUp a e = e"
      by (subst binadeUp.simps) (simp add: p)
    with False Suc.prems lt show ?thesis
      by (intro exI[of _ "nat e"]) auto
  qed
qed

lemma float32_half_int:
  assumes "2 \<le> k" and "k < 2 ^ 24"
  shows "float32 (of_int k / 2) = of_int k / 2"
proof -
  let ?v = "real_of_int k / 2"
  have v1: "1 \<le> ?v" using assms(1) by simp
  have av: "\<bar>?v\<bar> = ?v" using v1 by simp
  from binadeUp_spec[of 0 ?v] v1 obtain n where
    b: "binadeUp ?v 0 = int n" and n127: "n \<le> 127" and lo: "2 ^ n \<le> ?v"
    by auto
  have "?v < 2 ^ 23"
  proof -
    from assms(2) have "real_of_int k < 2 ^ 24" by (metis of_int_less_iff of_int_numeral of_int_power)
    then show ?thesis by simp
  qed
  with lo have lt: "(2 :: real) ^ n < 2 ^ 23" by linarith
  have n: "n < 23" by (rule power_less_imp_less_exp[of "2 :: real"]) (simp, fact lt)
  have bn: "binade \<bar>?v\<bar> = int n" unfolding av using v1 b by (simp add: binade_def)
  have e: "\<not> 0 \<le> int n - 23" "nat (- (int n - 23)) = 23 - n" using n by simp_all
  have pw: "(2 :: real) ^ (23 - n) = 2 * 2 ^ (22 - n)"
    using n by (metis Suc_diff_le Suc_eq_plus1 add.commute less_Suc_eq_le numeral_Bit1 numeral_Bit0
        numeral_One one_add_one power_Suc Suc_numeral add_One semiring_norm(2,8) diff_Suc_eq_diff_pred)
  have m: "?v * 2 ^ (23 - n) = of_int (k * 2 ^ (22 - n))" unfolding pw by simp
  have "float32 ?v = of_int (roundEven (?v * 2 ^ (23 - n))) / 2 ^ (23 - n)"
  proof -
    have nn: "nat (23 - int n) = 23 - n" by simp
    show ?thesis unfolding float32_def Let_def bn using n by (simp add: nn)
  qed
  also have "\<dots> = of_int (k * 2 ^ (22 - n)) / 2 ^ (23 - n)"
    unfolding m roundEven_of_int ..
  also have "\<dots> = ?v" unfolding pw by simp
  finally show ?thesis .
qed

lemma roundF_half_int:
  assumes "1 \<le> j" and "j < 2 ^ 24 - 1"
  shows "roundF (of_int j / 2) = (j + 1) div 2"
proof -
  have s: "real_of_int j / 2 + 1 / 2 = of_int (j + 1) / 2" by simp
  have f: "float32 (of_int (j + 1) / 2) = of_int (j + 1) / 2"
    using assms by (intro float32_half_int) simp_all
  have fl: "\<lfloor>real_of_int (j + 1) / 2\<rfloor> = (j + 1) div 2"
    by (metis floor_divide_of_int_eq of_int_numeral)
  have r: "(j + 1) div 2 < 2 ^ 31" using assms(2) by simp
  have r0: "0 \<le> (j + 1) div 2" using assms(1) by simp
  show ?thesis
    unfolding roundF_def s f toInt_def Let_def fl
    using r r0 assms(1) by simp
qed

lemma roundF_numeral [simp]:
  assumes "numeral w < (2 ^ 23 :: int)"
  shows "roundF (numeral w) = numeral w"
proof -
  define n :: int where "n = numeral w"
  have n1: "1 \<le> n" unfolding n_def by simp
  from assms have n2: "n < 2 ^ 23" unfolding n_def .
  have a: "1 \<le> 2 * n" "2 * n < 2 ^ 24 - 1" using n1 n2 by simp_all
  have "roundF (of_int (2 * n) / 2) = (2 * n + 1) div 2" using a by (rule roundF_half_int)
  moreover have "real_of_int (2 * n) / 2 = of_int n" by simp
  moreover have "(2 * n + 1) div 2 = n" by simp
  ultimately have "roundF (of_int n) = n" by simp
  then show ?thesis unfolding n_def by simp
qed

lemma roundF_numeral_half [simp]:
  assumes "numeral w < (2 ^ 24 - 1 :: int)"
  shows "roundF (numeral w / 2) = (numeral w + 1) div 2"
proof -
  define n :: int where "n = numeral w"
  have n1: "1 \<le> n" unfolding n_def by simp
  from assms have n2: "n < 2 ^ 24 - 1" unfolding n_def .
  have "roundF (of_int n / 2) = (n + 1) div 2" using n1 n2 by (rule roundF_half_int)
  then show ?thesis unfolding n_def by simp
qed

lemma roundF_0 [simp]: "roundF 0 = 0"
  by (simp add: eval_round)

lemma roundF_1 [simp]: "roundF 1 = 1"
  using roundF_half_int[of 2] by simp

lemmas eval_wideBar = findWideBarTopBottom_def vertexAt_def Let_def toInt_def
  nextBarLoop.simps wideBarLoop.simps newResultPoint_def

lemma skewed_dims: "getWidth skewedImage = 37" "getHeight skewedImage = 41"
  by (simp_all add: skewedImage_def)

lemma skewed_start_rows:
  assumes "length cs = 8"
  shows
  "findGuardPattern skewedImage 0 0 37 False START_PATTERN cs = None"
  "findGuardPattern skewedImage 0 8 37 False START_PATTERN cs = None"
  "findGuardPattern skewedImage 0 16 37 False START_PATTERN cs = Some (1, 18)"
  "findGuardPattern skewedImage 0 40 37 False START_PATTERN cs = Some (1, 18)"
  by (simp_all add: assms eval_guard skewedImage_def guardRow_def)

lemma skewed_stop_rows:
  assumes "length cs = 9"
  shows
  "findGuardPattern skewedImage 0 0 37 False STOP_PATTERN cs = None"
  "findGuardPattern skewedImage 0 8 37 False STOP_PATTERN cs = None"
  "findGuardPattern skewedImage 0 16 37 False STOP_PATTERN cs = Some (18, 36)"
  "findGuardPattern skewedImage 0 40 37 False STOP_PATTERN cs = Some (18, 36)"
  by (simp_all add: assms eval_guard skewedImage_def guardRow_def)

lemma findVertices_skewedImage: "findVertices skewedImage 8 = Some skewedVertices"
  by (simp add: eval_vertices skewed_dims skewed_start_rows skewed_stop_rows skewedVertices_def)
     (simp add: eval_nat_numeral)

lemma rotated_dims: "getWidth rotatedImage = 54" "getHeight rotatedImage = 49"
  by (simp_all add: rotatedImage_def)

lemma rotated_upright_rows:
  assumes "length cs = 8"
  shows
  "findGuardPattern rotatedImage 0 0 54 False START_PATTERN cs = None"
  "findGuardPattern rotatedImage 0 8 54 False START_PATTERN cs = None"
  "findGuardPattern rotatedImage 0 16 54 False START_PATTERN cs = None"
  "findGuardPattern rotatedImage 0 24 54 False START_PATTERN cs = None"
  "findGuardPattern rotatedImage 0 32 54 False START_PATTERN cs = None"
  "findGuardPattern rotatedImage 0 40 54 False START_PATTERN cs = None"
  "findGuardPattern rotatedImage 0 48 54 False START_PATTERN cs = None"
  by (simp_all add: assms eval_guard rotatedImage_def symbolRow_def)

lemma rotated_start_rows:
  assumes "length cs = 8"
  shows
  "findGuardPattern rotatedImage 27 48 27 True START_PATTERN_REVERSE cs = None"
  "findGuardPattern rotatedImage 27 40 27 True START_PATTERN_REVERSE cs = None"
  "findGuardPattern rotatedImage 27 32 27 True START_PATTERN_REVERSE cs = Some (36, 53)"
  "findGuardPattern rotatedImage 27 0 27 True START_PATTERN_REVERSE cs = None"
  "findGuardPattern rotatedImage 27 8 27 True START_PATTERN_REVERSE cs = Some (36, 53)"
  by (simp_all add: assms eval_guard START_PATTERN_REVERSE_def rotatedImage_def symbolRow_def)

lemma rotated_stop_rows:
  assumes "length cs = 9"
  shows
  "findGuardPattern rotatedImage 0 48 27 False STOP_PATTERN_REVERSE cs = None"
  "findGuardPattern rotatedImage 0 40 27 False STOP_PATTERN_REVERSE cs = None"
  "findGuardPattern rotatedImage 0 32 27 False STOP_PATTERN_REVERSE cs = Some (1, 19)"
  "findGuardPattern rotatedImage 0 0 27 False STOP_PATTERN_REVERSE cs = None"
  "findGuardPattern rotatedImage 0 8 27 False STOP_PATTERN_REVERSE cs = Some (1, 19)"
  by (simp_all add: assms eval_guard STOP_PATTERN_REVERSE_def rotatedImage_def symbolRow_def)

lemma findVertices_rotatedImage: "findVertices rotatedImage 8 = Some []"
  by (simp add: eval_vertices rotated_dims rotated_upright_rows)

lemma findVertices180_rotatedImage: "findVertices180 rotatedImage 8 = Some rotatedVertices"
  by (simp add: findVertices180_def START_PATTERN_REVERSE_def[THEN arg_cong, of length]
        STOP_PATTERN_REVERSE_def[THEN arg_cong, of length] scanTopDown.simps scanBottomUp.simps
        storeCorners_def newResultPoint_def COUNT_VERTICES_def Let_def
        rotated_dims rotated_start_rows rotated_stop_rows rotatedVertices_def)
     (simp add: eval_nat_numeral)

subsection \<open>Pixel tests of findWideBarTopBottom\<close>

text \<open>
  C10. \<^verbatim>\<open>detect\<close> on the image \<open>skewedImage\<close> finds the eight vertices
  \<open>skewedVertices\<close>, all inside the image, and the third call of
  \<^verbatim>\<open>findWideBarTopBottom\<close> in \<^verbatim>\<open>correctVertices\<close>, for the top right corner, follows
  the diagonal up to row 5, where it tests the pixels \<open>(37, 5)\<close> and \<open>(38, 5)\<close> for
  the thin bar: the image is 37 pixels wide. On \<open>rotatedImage\<close>, a clean symbol
  turned by 180 degrees, \<^verbatim>\<open>detect\<close> finds the eight vertices \<open>rotatedVertices\<close>, all
  inside the image, and the first call of \<^verbatim>\<open>findWideBarTopBottom\<close> looks for the
  thin bar to the right of column 53, finds none, and tests the pixels \<open>(54, 32)\<close>
  and \<open>(55, 32)\<close>: the image is 54 pixels wide.
\<close>

theorem findWideBarTopBottom_tests_outside:
  "findVertices skewedImage 8 = Some skewedVertices
   \<and> getWidth skewedImage = 37
   \<and> (\<exists>vs tested. findWideBarTopBottom skewedImage skewedVertices 2 11 7 18 (- 1)
          = Some (Inr (vs, tested)) \<and> (37, 5) \<in> set tested \<and> (38, 5) \<in> set tested)
   \<and> findVertices rotatedImage 8 = Some []
   \<and> findVertices180 rotatedImage 8 = Some rotatedVertices
   \<and> getWidth rotatedImage = 54
   \<and> (\<exists>vs tested. findWideBarTopBottom rotatedImage rotatedVertices 0 0 8 17 1
          = Some (Inr (vs, tested)) \<and> (54, 32) \<in> set tested \<and> (55, 32) \<in> set tested)"
proof -
  have "\<exists>vs tested. findWideBarTopBottom skewedImage skewedVertices 2 11 7 18 (- 1)
          = Some (Inr (vs, tested)) \<and> (37, 5) \<in> set tested \<and> (38, 5) \<in> set tested"
    by (simp add: eval_wideBar skewedVertices_def skewedImage_def guardRow_def)
  moreover
  have "\<exists>vs tested. findWideBarTopBottom rotatedImage rotatedVertices 0 0 8 17 1
          = Some (Inr (vs, tested)) \<and> (54, 32) \<in> set tested \<and> (55, 32) \<in> set tested"
    by (simp add: eval_wideBar rotatedVertices_def rotatedImage_def symbolRow_def)
  ultimately show ?thesis
    using findVertices_skewedImage skewed_dims(1) findVertices_rotatedImage
      findVertices180_rotatedImage rotated_dims(1)
    by simp
qed

subsection \<open>correctVertices\<close>

lemma vertexAt_Inl: "vertexAt vs i = Inl e \<Longrightarrow> e = NullVertex"
  by (simp add: vertexAt_def split: if_splits option.splits)

lemma findWideBarTopBottom_cases:
  assumes "findWideBarTopBottom matrix vs k a b c d = Some r"
  shows "r = Inl NullVertex \<or> (\<exists>p tested. r = Inr (vs[k + 8 := Some p], tested))"
proof (cases "vertexAt vs k")
  case (Inl e)
  with assms vertexAt_Inl[OF Inl] show ?thesis by (simp add: findWideBarTopBottom_def)
next
  case start: (Inr verticeStart)
  show ?thesis
  proof (cases "vertexAt vs (k + 4)")
    case (Inl e)
    with assms start vertexAt_Inl[OF Inl] show ?thesis by (simp add: findWideBarTopBottom_def)
  next
    case (Inr verticeEnd)
    with assms start show ?thesis
      unfolding findWideBarTopBottom_def Let_def newResultPoint_def
      by (auto simp add: map_option_case split: option.splits)
  qed
qed

lemma thenWideBar_cases:
  assumes "thenWideBar r f = Some z"
  shows "(\<exists>e. r = Some (Inl e) \<and> z = Inl e)
       \<or> (\<exists>vs tested e. r = Some (Inr (vs, tested)) \<and> f vs = Some (Inl e) \<and> z = Inl e)
       \<or> (\<exists>vs tested vs' tested'. r = Some (Inr (vs, tested)) \<and> f vs = Some (Inr (vs', tested'))
              \<and> z = Inr (vs', tested' @ tested))"
proof (cases r)
  case None
  with assms show ?thesis by (simp add: thenWideBar_def)
next
  case (Some a)
  show ?thesis
  proof (cases a)
    case (Inl e)
    with assms Some show ?thesis by (auto simp add: thenWideBar_def)
  next
    case (Inr b)
    obtain vs tested where b: "b = (vs, tested)" by (cases b)
    show ?thesis
    proof (cases "f vs")
      case None
      with assms Some Inr b show ?thesis by (simp add: thenWideBar_def)
    next
      case fs: (Some y)
      show ?thesis
      proof (cases y)
        case (Inl e)
        with assms Some Inr b fs show ?thesis by (auto simp add: thenWideBar_def)
      next
        case yr: (Inr c)
        obtain vs' tested' where "c = (vs', tested')" by (cases c)
        with assms Some Inr b fs yr show ?thesis by (auto simp add: thenWideBar_def)
      qed
    qed
  qed
qed

lemma findCrossingPoint_cases:
  "findCrossingPoint vs r a1 a2 b1 b2 matrix = Inl NullVertex
   \<or> findCrossingPoint vs r a1 a2 b1 b2 matrix = Inl ParallelLines
   \<or> findCrossingPoint vs r a1 a2 b1 b2 matrix = Inl CrossingOutOfRegion
   \<or> (\<exists>p. findCrossingPoint vs r a1 a2 b1 b2 matrix = Inr (vs[r := Some p]))"
proof -
  consider (n) "\<exists>k \<in> {a1, a2, b1, b2}. vertexAt vs k = Inl NullVertex"
    | (ok) p1 p2 p3 p4 where "vertexAt vs a1 = Inr p1" "vertexAt vs a2 = Inr p2"
        "vertexAt vs b1 = Inr p3" "vertexAt vs b2 = Inr p4"
    using vertexAt_Inl by (metis insertCI sum.exhaust_sel)
  then show ?thesis
  proof cases
    case n
    then show ?thesis
      by (auto simp add: findCrossingPoint_def andThen_def dest: vertexAt_Inl split: sum.splits)
  next
    case ok
    then show ?thesis
      by (auto simp add: findCrossingPoint_def andThen_def Let_def newResultPoint_def
          split: Point.splits)
  qed
qed

lemma andThen_Inl:
  "andThen r f = Inl e \<Longrightarrow> r = Inl e \<or> (\<exists>v. r = Inr v \<and> f v = Inl e)"
  by (cases r) (simp_all add: andThen_def)

lemma findCrossingPoint_not_guard:
  "findCrossingPoint vs r a1 a2 b1 b2 matrix \<noteq> Inl NotEnoughGuardPatterns"
  using findCrossingPoint_cases[of vs r a1 a2 b1 b2 matrix] by auto

lemma isLow_Inr:
  "vertexAt vs i = Inr p \<Longrightarrow> vertexAt vs j = Inr q \<Longrightarrow>
   isLow vs i j = Inr (\<bar>getY p - getY q\<bar> < 20)"
  by (simp add: isLow_def andThen_def)

text \<open>What \<^verbatim>\<open>correctVertices\<close> can come to: the guard failure exactly when one of the
  two tests holds, and one of the other failures or a vector of the same length
  otherwise.\<close>

lemma correctVertices_guard:
  assumes "vertexAt vs 4 = Inr p4" "vertexAt vs 5 = Inr p5"
    "vertexAt vs 6 = Inr p6" "vertexAt vs 7 = Inr p7"
  shows "(correctVertices matrix vs upsideDown = Some (Inl NotEnoughGuardPatterns))
     = (\<bar>getY p4 - getY p5\<bar> < 20 \<or> \<bar>getY p6 - getY p7\<bar> < 20)"
proof (cases "\<bar>getY p4 - getY p5\<bar> < 20 \<or> \<bar>getY p6 - getY p7\<bar> < 20")
  case True
  then show ?thesis
    by (simp add: correctVertices_def isLow_Inr[OF assms(1,2)] isLow_Inr[OF assms(3,4)])
next
  case False
  let ?step = "\<lambda>up. (if upsideDown then (if up then 1 else - 1) else (if up then - 1 else 1 :: int))"
  let ?w =
    "thenWideBar (thenWideBar (thenWideBar
       (findWideBarTopBottom matrix vs 0 0 8 17 (if upsideDown then 1 else - 1))
       (\<lambda>vs. findWideBarTopBottom matrix vs 1 0 8 17 (if upsideDown then - 1 else 1)))
       (\<lambda>vs. findWideBarTopBottom matrix vs 2 11 7 18 (if upsideDown then 1 else - 1)))
       (\<lambda>vs. findWideBarTopBottom matrix vs 3 11 7 18 (if upsideDown then - 1 else 1))"
  have w: "z \<noteq> Inl NotEnoughGuardPatterns" if "?w = Some z" for z
    using thenWideBar_cases[OF that]
    apply (elim disjE exE conjE)
    subgoal for e
      apply (drule thenWideBar_cases)
      apply (elim disjE exE conjE)
      subgoal for e' by (auto dest!: thenWideBar_cases findWideBarTopBottom_cases)
      subgoal by (auto dest!: findWideBarTopBottom_cases)
      subgoal by simp
      done
    subgoal by (auto dest!: findWideBarTopBottom_cases)
    subgoal by simp
    done
  have "correctVertices matrix vs upsideDown \<noteq> Some (Inl NotEnoughGuardPatterns)"
  proof
    assume a: "correctVertices matrix vs upsideDown = Some (Inl NotEnoughGuardPatterns)"
    from a False obtain z where z: "?w = Some z"
      and r: "andThen z (\<lambda>(vs, tested).
               andThen (findCrossingPoint vs 12 4 5 8 10 matrix) (\<lambda>vs.
               andThen (findCrossingPoint vs 13 4 5 9 11 matrix) (\<lambda>vs.
               andThen (findCrossingPoint vs 14 6 7 8 10 matrix) (\<lambda>vs.
               andThen (findCrossingPoint vs 15 6 7 9 11 matrix) (\<lambda>vs.
                 Inr (vs, tested)))))) = Inl NotEnoughGuardPatterns"
      by (auto simp add: correctVertices_def isLow_Inr[OF assms(1,2)] isLow_Inr[OF assms(3,4)])
    from w[OF z] r show False
      by (auto dest!: andThen_Inl simp add: findCrossingPoint_not_guard)
  qed
  with False show ?thesis by simp
qed

text \<open>With a row step other than 0 the loop of \<^verbatim>\<open>findWideBarTopBottom\<close> ends: a step
  to the side lands on a black pixel, and from a black pixel the loop moves on by one
  row step, or stops.\<close>

lemma wideBarLoop_returns:
  assumes "rowStep \<noteq> 0"
  shows "\<exists>r. wideBarLoop matrix rowStep yStart nextBarX x y tested = Some r"
proof (induction "2 * nat (if rowStep > 0 then int (getHeight matrix) - y else y)
                    + (if get matrix x y then 0 else 1 :: nat)"
       arbitrary: x y tested rule: less_induct)
  case less
  show ?case
  proof (cases "get matrix x y")
    case True
    let ?y = "y + rowStep"
    show ?thesis
    proof (cases "(\<not> get matrix (x + nextBarX) y \<and> \<not> get matrix (x + nextBarX + 1) y)
                  \<or> ?y \<le> 0 \<or> ?y \<ge> int (getHeight matrix) - 1")
      case stop: True
      then show ?thesis
        by (subst wideBarLoop.simps) (simp add: True Let_def)
    next
      case False
      then have "2 * nat (if rowStep > 0 then int (getHeight matrix) - ?y else ?y)
                    + (if get matrix x ?y then 0 else 1 :: nat)
               < 2 * nat (if rowStep > 0 then int (getHeight matrix) - y else y)
                    + (if get matrix x y then 0 else 1 :: nat)"
        using assms True by (auto split: if_splits)
      from less[OF this] False show ?thesis
        by (subst wideBarLoop.simps) (simp add: True Let_def)
    qed
  next
    case False
    have dec: "get matrix x' y \<Longrightarrow>
               2 * nat (if rowStep > 0 then int (getHeight matrix) - y else y)
                    + (if get matrix x' y then 0 else 1 :: nat)
               < 2 * nat (if rowStep > 0 then int (getHeight matrix) - y else y)
                    + (if get matrix x y then 0 else 1 :: nat)" for x'
      using False by simp
    show ?thesis
    proof (cases "x > 0 \<and> get matrix (x - 1) y")
      case True
      with less[OF dec[of "x - 1"]] False show ?thesis
        by (subst wideBarLoop.simps) simp
    next
      case left: False
      show ?thesis
      proof (cases "x < int (getWidth matrix) - 1 \<and> get matrix (x + 1) y")
        case True
        with less[OF dec[of "x + 1"]] False left show ?thesis
          by (subst wideBarLoop.simps) (auto simp add: Let_def)
      next
        case right: False
        with False left show ?thesis
          by (subst wideBarLoop.simps) (auto simp add: Let_def)
      qed
    qed
  qed
qed

lemma findWideBarTopBottom_returns:
  "rowStep \<noteq> 0 \<Longrightarrow> \<exists>r. findWideBarTopBottom matrix vs k a b c rowStep = Some r"
  using wideBarLoop_returns[of rowStep matrix]
  by (auto simp add: findWideBarTopBottom_def Let_def split: sum.splits)

lemma thenWideBar_returns:
  "\<exists>z. r = Some z \<Longrightarrow> (\<And>vs. \<exists>z. f vs = Some z) \<Longrightarrow> \<exists>z. thenWideBar r f = Some z"
  by (auto simp add: thenWideBar_def split: option.splits sum.splits)

lemma correctVertices_returns: "\<exists>r. correctVertices matrix vs upsideDown = Some r"
proof -
  have "\<exists>z. thenWideBar (thenWideBar (thenWideBar
              (findWideBarTopBottom matrix vs 0 0 8 17 (if upsideDown then 1 else - 1))
              (\<lambda>vs. findWideBarTopBottom matrix vs 1 0 8 17 (if upsideDown then - 1 else 1)))
              (\<lambda>vs. findWideBarTopBottom matrix vs 2 11 7 18 (if upsideDown then 1 else - 1)))
              (\<lambda>vs. findWideBarTopBottom matrix vs 3 11 7 18 (if upsideDown then - 1 else 1)) = Some z"
    by (intro thenWideBar_returns findWideBarTopBottom_returns) simp_all
  then show ?thesis
    by (auto simp add: correctVertices_def split: sum.splits)
qed

lemma symbol_dims: "getWidth symbolImage = 54" "getHeight symbolImage = 49"
  by (simp_all add: symbolImage_def)

lemma symbol_start_rows:
  assumes "length cs = 8"
  shows
  "findGuardPattern symbolImage 0 0 54 False START_PATTERN cs = None"
  "findGuardPattern symbolImage 0 8 54 False START_PATTERN cs = None"
  "findGuardPattern symbolImage 0 16 54 False START_PATTERN cs = Some (1, 18)"
  "findGuardPattern symbolImage 0 48 54 False START_PATTERN cs = None"
  "findGuardPattern symbolImage 0 40 54 False START_PATTERN cs = Some (1, 18)"
  by (simp_all add: assms eval_guard symbolImage_def symbolRow_def)

lemma symbol_stop_rows:
  assumes "length cs = 9"
  shows
  "findGuardPattern symbolImage 0 0 54 False STOP_PATTERN cs = None"
  "findGuardPattern symbolImage 0 8 54 False STOP_PATTERN cs = None"
  "findGuardPattern symbolImage 0 16 54 False STOP_PATTERN cs = Some (35, 53)"
  "findGuardPattern symbolImage 0 48 54 False STOP_PATTERN cs = None"
  "findGuardPattern symbolImage 0 40 54 False STOP_PATTERN cs = Some (35, 53)"
  by (simp_all add: assms eval_guard symbolImage_def symbolRow_def)

lemma findVertices_symbolImage: "findVertices symbolImage 8 = Some symbolVertices"
  by (simp add: eval_vertices symbol_dims symbol_start_rows symbol_stop_rows symbolVertices_def)
     (simp add: eval_nat_numeral)

theorem findVertices_all_or_nothing_witness:
  "(0 :: nat) < 8 \<and> (8 :: nat) < 2 ^ 31
   \<and> findVertices whitePixel 8 = Some []
   \<and> findVertices symbolImage 8 = Some symbolVertices \<and> allEight symbolVertices
   \<and> findVertices180 rotatedImage 8 = Some rotatedVertices \<and> allEight rotatedVertices"
proof -
  have "symbolVertices \<noteq> []" "rotatedVertices \<noteq> []"
    by (simp_all add: symbolVertices_def rotatedVertices_def)
  with findVertices_all_or_nothing[of 8 symbolImage] findVertices_all_or_nothing[of 8 rotatedImage]
    findVertices_whitePixel_8 findVertices_symbolImage findVertices180_rotatedImage
  show ?thesis by simp
qed

lemma list16_update:
  "[a0, a1, a2, a3, a4, a5, a6, a7, a8, a9, a10, a11, a12, a13, a14, a15][8 := b] =
   [a0, a1, a2, a3, a4, a5, a6, a7, b, a9, a10, a11, a12, a13, a14, a15]"
  "[a0, a1, a2, a3, a4, a5, a6, a7, a8, a9, a10, a11, a12, a13, a14, a15][9 := b] =
   [a0, a1, a2, a3, a4, a5, a6, a7, a8, b, a10, a11, a12, a13, a14, a15]"
  "[a0, a1, a2, a3, a4, a5, a6, a7, a8, a9, a10, a11, a12, a13, a14, a15][10 := b] =
   [a0, a1, a2, a3, a4, a5, a6, a7, a8, a9, b, a11, a12, a13, a14, a15]"
  "[a0, a1, a2, a3, a4, a5, a6, a7, a8, a9, a10, a11, a12, a13, a14, a15][11 := b] =
   [a0, a1, a2, a3, a4, a5, a6, a7, a8, a9, a10, b, a12, a13, a14, a15]"
  "[a0, a1, a2, a3, a4, a5, a6, a7, a8, a9, a10, a11, a12, a13, a14, a15][12 := b] =
   [a0, a1, a2, a3, a4, a5, a6, a7, a8, a9, a10, a11, b, a13, a14, a15]"
  "[a0, a1, a2, a3, a4, a5, a6, a7, a8, a9, a10, a11, a12, a13, a14, a15][13 := b] =
   [a0, a1, a2, a3, a4, a5, a6, a7, a8, a9, a10, a11, a12, b, a14, a15]"
  "[a0, a1, a2, a3, a4, a5, a6, a7, a8, a9, a10, a11, a12, a13, a14, a15][14 := b] =
   [a0, a1, a2, a3, a4, a5, a6, a7, a8, a9, a10, a11, a12, a13, b, a15]"
  "[a0, a1, a2, a3, a4, a5, a6, a7, a8, a9, a10, a11, a12, a13, a14, a15][15 := b] =
   [a0, a1, a2, a3, a4, a5, a6, a7, a8, a9, a10, a11, a12, a13, a14, b]"
  by (simp_all add: eval_nat_numeral)

lemma correctVertices_symbolImage:
  "\<exists>tested. correctVertices symbolImage symbolVertices False = Some (Inr (correctedVertices, tested))"
  by (simp add: correctVertices_def isLow_def andThen_def thenWideBar_def eval_wideBar
      findCrossingPoint_def intersection_def symbolVertices_def symbolImage_def symbolRow_def
      list16_update correctedVertices_def)

lemma andThen_Inr:
  "andThen r f = Inr v \<Longrightarrow> \<exists>w. r = Inr w \<and> f w = Inr v"
  by (cases r) (simp_all add: andThen_def)

lemma findCrossingPoint_length:
  "findCrossingPoint vs r a1 a2 b1 b2 matrix = Inr vs' \<Longrightarrow> length vs' = length vs"
  using findCrossingPoint_cases[of vs r a1 a2 b1 b2 matrix] by auto

lemma thenWideBar_length:
  assumes "thenWideBar r (\<lambda>vs. findWideBarTopBottom matrix vs k a b c d) = Some (Inr (vs', t))"
    and "\<And>vs1 t1. r = Some (Inr (vs1, t1)) \<Longrightarrow> length vs1 = n"
  shows "length vs' = n"
  using thenWideBar_cases[OF assms(1)] assms(2)
  by (auto dest!: findWideBarTopBottom_cases)

lemma findWideBarTopBottom_length:
  "findWideBarTopBottom matrix vs k a b c d = Some (Inr (vs', t)) \<Longrightarrow> length vs' = length vs"
  by (auto dest!: findWideBarTopBottom_cases)

lemma correctVertices_length:
  assumes "correctVertices matrix vs upsideDown = Some (Inr (vs', tested))"
  shows "length vs' = length vs"
proof -
  let ?w =
    "thenWideBar (thenWideBar (thenWideBar
       (findWideBarTopBottom matrix vs 0 0 8 17 (if upsideDown then 1 else - 1))
       (\<lambda>vs. findWideBarTopBottom matrix vs 1 0 8 17 (if upsideDown then - 1 else 1)))
       (\<lambda>vs. findWideBarTopBottom matrix vs 2 11 7 18 (if upsideDown then 1 else - 1)))
       (\<lambda>vs. findWideBarTopBottom matrix vs 3 11 7 18 (if upsideDown then - 1 else 1))"
  from assms obtain z where z: "?w = Some z"
    and r: "andThen z (\<lambda>(vs, tested).
               andThen (findCrossingPoint vs 12 4 5 8 10 matrix) (\<lambda>vs.
               andThen (findCrossingPoint vs 13 4 5 9 11 matrix) (\<lambda>vs.
               andThen (findCrossingPoint vs 14 6 7 8 10 matrix) (\<lambda>vs.
               andThen (findCrossingPoint vs 15 6 7 9 11 matrix) (\<lambda>vs.
                 Inr (vs, tested)))))) = Inr (vs', tested)"
    by (auto simp add: correctVertices_def split: sum.splits if_splits)
  from andThen_Inr[OF r] obtain vs1 t1 where z1: "z = Inr (vs1, t1)"
    and r1: "andThen (findCrossingPoint vs1 12 4 5 8 10 matrix) (\<lambda>vs.
               andThen (findCrossingPoint vs 13 4 5 9 11 matrix) (\<lambda>vs.
               andThen (findCrossingPoint vs 14 6 7 8 10 matrix) (\<lambda>vs.
               andThen (findCrossingPoint vs 15 6 7 9 11 matrix) (\<lambda>vs.
                 Inr (vs, t1))))) = Inr (vs', tested)"
    by auto
  have "length vs1 = length vs"
    by (rule thenWideBar_length[OF z[unfolded z1]], erule thenWideBar_length,
        erule thenWideBar_length, erule findWideBarTopBottom_length)
  moreover from r1 have "length vs' = length vs1"
    by (auto dest!: andThen_Inr findCrossingPoint_length)
  ultimately show ?thesis by simp
qed

lemma locateVertices_upright:
  assumes "findVertices matrix 8 = Some vs" and "vs \<noteq> []"
  shows "locateVertices matrix = correctVertices matrix vs False"
proof (cases "correctVertices matrix vs False")
  case None
  with assms show ?thesis by (simp add: locateVertices_def)
next
  case (Some r)
  show ?thesis
  proof (cases r)
    case (Inl e)
    with assms Some show ?thesis by (simp add: locateVertices_def andThen_def)
  next
    case (Inr b)
    obtain vs' tested where b: "b = (vs', tested)" by (cases b)
    from correctVertices_length[OF Some[unfolded Inr b]] assms(2) have "vs' \<noteq> []" by auto
    with assms Some Inr b show ?thesis by (simp add: locateVertices_def andThen_def)
  qed
qed

lemma locateVertices_rotated:
  assumes "findVertices matrix 8 = Some []" and "findVertices180 matrix 8 = Some vs" and "vs \<noteq> []"
  shows "locateVertices matrix = correctVertices matrix vs True"
proof (cases "correctVertices matrix vs True")
  case None
  with assms show ?thesis by (simp add: locateVertices_def)
next
  case (Some r)
  show ?thesis
  proof (cases r)
    case (Inl e)
    with assms Some show ?thesis by (simp add: locateVertices_def andThen_def)
  next
    case (Inr b)
    obtain vs' tested where b: "b = (vs', tested)" by (cases b)
    from correctVertices_length[OF Some[unfolded Inr b]] assms(3) have "vs' \<noteq> []" by auto
    with assms Some Inr b show ?thesis by (simp add: locateVertices_def andThen_def)
  qed
qed

lemma locateVertices_none:
  assumes "findVertices matrix 8 = Some []" and "findVertices180 matrix 8 = Some []"
  shows "locateVertices matrix = Some (Inl NoVerticesFound)"
  using assms by (simp add: locateVertices_def andThen_def)


lemma detect_located:
  "fst (detect c \<lparr>image' = matrix\<rparr>) =
     map_option (\<lambda>r. andThen r (\<lambda>(vs', tested).
                   andThen (measureSymbol c vs') (sampleSymbol c matrix vs')))
       (locateVertices matrix)"
  by (simp add: detect_def)

lemma sampleSymbol_points:
  "sampleSymbol c matrix vs g = Inr r \<Longrightarrow> length (points r) = 4"
  by (auto simp add: sampleSymbol_def dest!: andThen_Inr)

lemma detect_points:
  assumes "fst (detect c this) = Some (Inr r)"
  shows "length (points r) = 4"
proof -
  define F where "F = (\<lambda>located :: error + vertices \<times> tests. andThen located (\<lambda>(vs, tested).
            andThen (measureSymbol c vs) (sampleSymbol c (image' this) vs)))"
  from assms have "map_option F (locateVertices (image' this)) = Some (Inr r)"
    by (simp add: detect_def F_def)
  then obtain located where "F located = Inr r" by blast
  then obtain vs g where "sampleSymbol c (image' this) vs g = Inr r"
    unfolding F_def by (auto dest!: andThen_Inr)
  then show ?thesis by (rule sampleSymbol_points)
qed

text \<open>
  C1. \<^verbatim>\<open>detect\<close> runs \<^verbatim>\<open>findVertices\<close> with row step 8, and that search returns.
  If it returns a vector that is not empty, what \<^verbatim>\<open>detect\<close> returns is what the rest
  of \<^verbatim>\<open>detect\<close> (module width, dimensions, sampling) makes of \<^verbatim>\<open>correctVertices\<close> on
  that vector, upright: the rotated search has no part in it. If it returns the empty
  vector, \<^verbatim>\<open>findVertices180\<close> is run with row step 8 and returns; on a vector that is
  not empty \<^verbatim>\<open>detect\<close> returns what the rest of \<^verbatim>\<open>detect\<close> makes of
  \<^verbatim>\<open>correctVertices\<close> on it, upside down, and on the empty vector \<^verbatim>\<open>detect\<close> fails
  with "No vertices found." A result that is not a failure has its four points.
  (That \<^verbatim>\<open>findVertices\<close> scans each row from column 0 over the whole width is its
  definition.)
\<close>

theorem detect_orientation_policy:
  "(\<exists>vs. findVertices matrix 8 = Some vs)
   \<and> (\<forall>vs. findVertices matrix 8 = Some vs \<and> vs \<noteq> [] \<longrightarrow>
          fst (detect c \<lparr>image' = matrix\<rparr>) =
            map_option (\<lambda>r. andThen r (\<lambda>(vs', tested).
                          andThen (measureSymbol c vs') (sampleSymbol c matrix vs')))
              (correctVertices matrix vs False))
   \<and> (findVertices matrix 8 = Some [] \<longrightarrow>
        (\<exists>vs. findVertices180 matrix 8 = Some vs
           \<and> (vs \<noteq> [] \<longrightarrow>
                fst (detect c \<lparr>image' = matrix\<rparr>) =
                  map_option (\<lambda>r. andThen r (\<lambda>(vs', tested).
                                andThen (measureSymbol c vs') (sampleSymbol c matrix vs')))
                    (correctVertices matrix vs True))
           \<and> (vs = [] \<longrightarrow> fst (detect c \<lparr>image' = matrix\<rparr>) = Some (Inl NoVerticesFound))))
   \<and> (\<forall>r. fst (detect c \<lparr>image' = matrix\<rparr>) = Some (Inr r) \<longrightarrow> length (points r) = 4)"
proof (intro conjI allI impI)
  show "\<exists>vs. findVertices matrix 8 = Some vs"
    using findVertices_returns[of 8 matrix] by auto
next
  fix vs assume "findVertices matrix 8 = Some vs \<and> vs \<noteq> []"
  then have "locateVertices matrix = correctVertices matrix vs False"
    using locateVertices_upright by blast
  then show "fst (detect c \<lparr>image' = matrix\<rparr>) =
            map_option (\<lambda>r. andThen r (\<lambda>(vs', tested).
                          andThen (measureSymbol c vs') (sampleSymbol c matrix vs')))
              (correctVertices matrix vs False)"
    by (simp only: detect_located)
next
  assume e: "findVertices matrix 8 = Some []"
  obtain vs where vs: "findVertices180 matrix 8 = Some vs"
    using findVertices180_returns[of 8 matrix] by auto
  have "vs \<noteq> [] \<longrightarrow> fst (detect c \<lparr>image' = matrix\<rparr>) =
                  map_option (\<lambda>r. andThen r (\<lambda>(vs', tested).
                                andThen (measureSymbol c vs') (sampleSymbol c matrix vs')))
                    (correctVertices matrix vs True)"
    using locateVertices_rotated[OF e vs] by (simp only: detect_located) simp
  moreover have "vs = [] \<longrightarrow> fst (detect c \<lparr>image' = matrix\<rparr>) = Some (Inl NoVerticesFound)"
    using locateVertices_none[OF e] vs by (auto simp add: detect_def andThen_def)
  ultimately show "\<exists>vs. findVertices180 matrix 8 = Some vs
           \<and> (vs \<noteq> [] \<longrightarrow>
                fst (detect c \<lparr>image' = matrix\<rparr>) =
                  map_option (\<lambda>r. andThen r (\<lambda>(vs', tested).
                                andThen (measureSymbol c vs') (sampleSymbol c matrix vs')))
                    (correctVertices matrix vs True))
           \<and> (vs = [] \<longrightarrow> fst (detect c \<lparr>image' = matrix\<rparr>) = Some (Inl NoVerticesFound))"
    using vs by blast
next
  fix r assume "fst (detect c \<lparr>image' = matrix\<rparr>) = Some (Inr r)"
  then show "length (points r) = 4" by (rule detect_points)
qed

lemma euclidean_row: "getY p = getY q \<Longrightarrow> euclidean p q = \<bar>getX p - getX q\<bar>"
  by (simp add: euclidean_def)

lemma euclidean_column: "getX p = getX q \<Longrightarrow> euclidean p q = \<bar>getY p - getY q\<bar>"
  by (simp add: euclidean_def)

lemma cdiv_numeral [simp]: "cdiv 25 17 = 1" "cdiv 8 17 = 0"
  by (simp_all add: cdiv_def)

lemma measureSymbol_corrected:
  "measureSymbol \<lparr>distance = euclidean, sampleGrid = sg, linesSample = ls\<rparr> correctedVertices
     = Inr \<lparr>moduleWidth = 1, dimension = 17, yDimension = 24\<rparr>"
  by (simp add: measureSymbol_def computeModuleWidth_def computeDimension_def
      computeYDimension_def andThen_def vertexAt_def correctedVertices_def Let_def
      euclidean_row euclidean_column)

lemma measureSymbol_narrow:
  "measureSymbol \<lparr>distance = euclidean, sampleGrid = sg, linesSample = ls\<rparr> narrowVertices
     = Inl BadDimension"
  by (simp add: measureSymbol_def computeModuleWidth_def computeDimension_def
      computeYDimension_def andThen_def vertexAt_def narrowVertices_def Let_def
      euclidean_row euclidean_column)

lemma sampleQuadrilaterals_corrected:
  "sampleQuadrilaterals correctedVertices 17 24 =
     Inr \<lparr>x0 = 0, y0 = 0, x1 = 192, y1 = 0, x2 = 0, y2 = 68, x3 = 192, y3 = 68,
          x0p = 18, y0p = 16, x1p = 35, y1p = 16, x2p = 18, y2p = 40, x3p = 35, y3p = 40\<rparr>"
  by (simp add: sampleQuadrilaterals_def andThen_def vertexAt_def correctedVertices_def Let_def)

lemma locateVertices_symbolImage:
  "\<exists>tested. locateVertices symbolImage = Some (Inr (correctedVertices, tested))"
proof -
  have "symbolVertices \<noteq> []" by (simp add: symbolVertices_def)
  from locateVertices_upright[OF findVertices_symbolImage this] correctVertices_symbolImage
  show ?thesis by simp
qed

lemma detect_symbolImage:
  "fst (detect \<lparr>distance = euclidean, sampleGrid = sg, linesSample = ls\<rparr> \<lparr>image' = symbolImage\<rparr>)
     = Some (andThen
         (sg symbolImage 192 68
            \<lparr>x0 = 0, y0 = 0, x1 = 192, y1 = 0, x2 = 0, y2 = 68, x3 = 192, y3 = 68,
             x0p = 18, y0p = 16, x1p = 35, y1p = 16, x2p = 18, y2p = 40, x3p = 35, y3p = 40\<rparr>)
         (\<lambda>linesMatrix. andThen (ls linesMatrix 17) (\<lambda>linesGrid.
            Inr \<lparr>bits = linesGrid,
                 points =
                   [newResultPoint 0 (of_nat (getHeight linesMatrix)),
                    newResultPoint 0 0,
                    newResultPoint (of_nat (getWidth linesMatrix)) 0,
                    newResultPoint (of_nat (getWidth linesMatrix))
                      (of_nat (getHeight linesMatrix))]\<rparr>)))"
proof -
  from locateVertices_symbolImage obtain tested
    where "locateVertices symbolImage = Some (Inr (correctedVertices, tested))" ..
  then show ?thesis
    by (simp add: detect_def andThen_def[of "Inr _"] measureSymbol_corrected sampleSymbol_def
        sampleLines_def sampleQuadrilaterals_corrected Let_def)
qed

lemma findVertices180_whitePixel_8: "findVertices180 whitePixel 8 = Some []"
  by (simp add: findVertices180_def Let_def scanBottomUp.simps storeCorners_def
      whitePixel_def matrixOfRows_def)

lemma vertexAt_symbolVertices:
  "vertexAt symbolVertices 0 = Inr \<lparr>getX = 1, getY = 16\<rparr>"
  "vertexAt symbolVertices 1 = Inr \<lparr>getX = 1, getY = 40\<rparr>"
  "vertexAt symbolVertices 2 = Inr \<lparr>getX = 53, getY = 16\<rparr>"
  "vertexAt symbolVertices 3 = Inr \<lparr>getX = 53, getY = 40\<rparr>"
  "vertexAt symbolVertices 4 = Inr \<lparr>getX = 18, getY = 16\<rparr>"
  "vertexAt symbolVertices 5 = Inr \<lparr>getX = 18, getY = 40\<rparr>"
  "vertexAt symbolVertices 6 = Inr \<lparr>getX = 35, getY = 16\<rparr>"
  "vertexAt symbolVertices 7 = Inr \<lparr>getX = 35, getY = 40\<rparr>"
  by (simp_all add: vertexAt_def symbolVertices_def)

lemma correctVertices_proceeds:
  assumes "vertexAt vs 4 = Inr p4" "vertexAt vs 5 = Inr p5"
    "vertexAt vs 6 = Inr p6" "vertexAt vs 7 = Inr p7"
    and "\<not> (\<bar>getY p4 - getY p5\<bar> < 20 \<or> \<bar>getY p6 - getY p7\<bar> < 20)"
  shows "correctVertices matrix vs upsideDown =
     map_option
       (\<lambda>r. andThen r (\<lambda>(vs, tested).
          andThen (findCrossingPoint vs 12 4 5 8 10 matrix) (\<lambda>vs.
          andThen (findCrossingPoint vs 13 4 5 9 11 matrix) (\<lambda>vs.
          andThen (findCrossingPoint vs 14 6 7 8 10 matrix) (\<lambda>vs.
          andThen (findCrossingPoint vs 15 6 7 9 11 matrix) (\<lambda>vs.
            Inr (vs, tested)))))))
       (thenWideBar (thenWideBar (thenWideBar
         (findWideBarTopBottom matrix vs 0 0 8 17 (if upsideDown then 1 else - 1))
         (\<lambda>vs. findWideBarTopBottom matrix vs 1 0 8 17 (if upsideDown then - 1 else 1)))
         (\<lambda>vs. findWideBarTopBottom matrix vs 2 11 7 18 (if upsideDown then 1 else - 1)))
         (\<lambda>vs. findWideBarTopBottom matrix vs 3 11 7 18 (if upsideDown then - 1 else 1)))"
  using assms(5)
  by (simp add: correctVertices_def isLow_Inr[OF assms(1,2)] isLow_Inr[OF assms(3,4)])

lemma thenWideBar_Inr:
  assumes "thenWideBar r f = Some (Inr (vs', t))"
  obtains vs0 t0 t1 where "r = Some (Inr (vs0, t0))" "f vs0 = Some (Inr (vs', t1))"
  using thenWideBar_cases[OF assms] by auto

lemma findWideBarTopBottom_Inr:
  assumes "findWideBarTopBottom matrix vs k a b c d = Some (Inr (vs', t))"
  obtains p where "vs' = vs[k + 8 := Some p]"
  using findWideBarTopBottom_cases[OF assms] by auto

lemma findCrossingPoint_Inr:
  assumes "findCrossingPoint vs r a1 a2 b1 b2 matrix = Inr vs'"
  obtains p where "vs' = vs[r := Some p]"
  using findCrossingPoint_cases[of vs r a1 a2 b1 b2 matrix] assms by auto

lemma correctVertices_filled:
  assumes "correctVertices matrix vs upsideDown = Some (Inr (vs', tested))"
  shows "\<exists>q8 q9 q10 q11 q12 q13 q14 q15.
           vs' = vs[8 := Some q8, 9 := Some q9, 10 := Some q10, 11 := Some q11,
                    12 := Some q12, 13 := Some q13, 14 := Some q14, 15 := Some q15]"
proof -
  let ?w =
    "thenWideBar (thenWideBar (thenWideBar
       (findWideBarTopBottom matrix vs 0 0 8 17 (if upsideDown then 1 else - 1))
       (\<lambda>vs. findWideBarTopBottom matrix vs 1 0 8 17 (if upsideDown then - 1 else 1)))
       (\<lambda>vs. findWideBarTopBottom matrix vs 2 11 7 18 (if upsideDown then 1 else - 1)))
       (\<lambda>vs. findWideBarTopBottom matrix vs 3 11 7 18 (if upsideDown then - 1 else 1))"
  from assms obtain z where z: "?w = Some z"
    and r: "andThen z (\<lambda>(vs, tested).
               andThen (findCrossingPoint vs 12 4 5 8 10 matrix) (\<lambda>vs.
               andThen (findCrossingPoint vs 13 4 5 9 11 matrix) (\<lambda>vs.
               andThen (findCrossingPoint vs 14 6 7 8 10 matrix) (\<lambda>vs.
               andThen (findCrossingPoint vs 15 6 7 9 11 matrix) (\<lambda>vs.
                 Inr (vs, tested)))))) = Inr (vs', tested)"
    by (auto simp add: correctVertices_def split: sum.splits if_splits)
  from andThen_Inr[OF r] obtain w4 t4 where z4: "z = Inr (w4, t4)"
    and r1: "andThen (findCrossingPoint w4 12 4 5 8 10 matrix) (\<lambda>vs.
               andThen (findCrossingPoint vs 13 4 5 9 11 matrix) (\<lambda>vs.
               andThen (findCrossingPoint vs 14 6 7 8 10 matrix) (\<lambda>vs.
               andThen (findCrossingPoint vs 15 6 7 9 11 matrix) (\<lambda>vs.
                 Inr (vs, t4))))) = Inr (vs', tested)"
    by auto
  from z[unfolded z4] obtain w3 t3 t3' where
    c3: "thenWideBar (thenWideBar
       (findWideBarTopBottom matrix vs 0 0 8 17 (if upsideDown then 1 else - 1))
       (\<lambda>vs. findWideBarTopBottom matrix vs 1 0 8 17 (if upsideDown then - 1 else 1)))
       (\<lambda>vs. findWideBarTopBottom matrix vs 2 11 7 18 (if upsideDown then 1 else - 1))
       = Some (Inr (w3, t3))"
    and f4: "findWideBarTopBottom matrix w3 3 11 7 18 (if upsideDown then - 1 else 1)
       = Some (Inr (w4, t3'))"
    by (rule thenWideBar_Inr)
  from c3 obtain w2 t2 t2' where
    c2: "thenWideBar
       (findWideBarTopBottom matrix vs 0 0 8 17 (if upsideDown then 1 else - 1))
       (\<lambda>vs. findWideBarTopBottom matrix vs 1 0 8 17 (if upsideDown then - 1 else 1))
       = Some (Inr (w2, t2))"
    and f3: "findWideBarTopBottom matrix w2 2 11 7 18 (if upsideDown then 1 else - 1)
       = Some (Inr (w3, t2'))"
    by (rule thenWideBar_Inr)
  from c2 obtain w1 t1 t1' where
    f1: "findWideBarTopBottom matrix vs 0 0 8 17 (if upsideDown then 1 else - 1)
       = Some (Inr (w1, t1))"
    and f2: "findWideBarTopBottom matrix w1 1 0 8 17 (if upsideDown then - 1 else 1)
       = Some (Inr (w2, t1'))"
    by (rule thenWideBar_Inr)
  from f1 obtain q8 where w1: "w1 = vs[8 := Some q8]"
    by (rule findWideBarTopBottom_Inr) simp
  from f2 obtain q9 where w2: "w2 = w1[9 := Some q9]"
    by (rule findWideBarTopBottom_Inr) simp
  from f3 obtain q10 where w3: "w3 = w2[10 := Some q10]"
    by (rule findWideBarTopBottom_Inr) simp
  from f4 obtain q11 where w4: "w4 = w3[11 := Some q11]"
    by (rule findWideBarTopBottom_Inr) simp
  from andThen_Inr[OF r1] obtain w5 where g5: "findCrossingPoint w4 12 4 5 8 10 matrix = Inr w5"
    and r2: "andThen (findCrossingPoint w5 13 4 5 9 11 matrix) (\<lambda>vs.
               andThen (findCrossingPoint vs 14 6 7 8 10 matrix) (\<lambda>vs.
               andThen (findCrossingPoint vs 15 6 7 9 11 matrix) (\<lambda>vs.
                 Inr (vs, t4)))) = Inr (vs', tested)"
    by auto
  from andThen_Inr[OF r2] obtain w6 where g6: "findCrossingPoint w5 13 4 5 9 11 matrix = Inr w6"
    and r3: "andThen (findCrossingPoint w6 14 6 7 8 10 matrix) (\<lambda>vs.
               andThen (findCrossingPoint vs 15 6 7 9 11 matrix) (\<lambda>vs.
                 Inr (vs, t4))) = Inr (vs', tested)"
    by auto
  from andThen_Inr[OF r3] obtain w7 where g7: "findCrossingPoint w6 14 6 7 8 10 matrix = Inr w7"
    and r4: "andThen (findCrossingPoint w7 15 6 7 9 11 matrix) (\<lambda>vs.
                 Inr (vs, t4)) = Inr (vs', tested)"
    by auto
  from andThen_Inr[OF r4] have g8: "findCrossingPoint w7 15 6 7 9 11 matrix = Inr vs'"
    by auto
  from g5 obtain q12 where w5: "w5 = w4[12 := Some q12]" by (rule findCrossingPoint_Inr)
  from g6 obtain q13 where w6: "w6 = w5[13 := Some q13]" by (rule findCrossingPoint_Inr)
  from g7 obtain q14 where w7: "w7 = w6[14 := Some q14]" by (rule findCrossingPoint_Inr)
  from g8 obtain q15 where w8: "vs' = w7[15 := Some q15]" by (rule findCrossingPoint_Inr)
  show ?thesis unfolding w8 w7 w6 w5 w4 w3 w2 w1 by blast
qed

text \<open>
  C5, as the code has it. For a vector with the inner corners 4 to 7 in place,
  \<^verbatim>\<open>correctVertices\<close> fails with "Cannot find enough PDF417 guard patterns!" if and
  only if the top and the bottom inner corner of the left side (slots 4 and 5) or of
  the right side (slots 6 and 7) are less than 20 rows apart. In every other case it
  goes on: its outcome is that of the four calls of \<^verbatim>\<open>findWideBarTopBottom\<close>, for the
  corners 0, 1, 2 and 3, followed by the four calls of \<^verbatim>\<open>findCrossingPoint\<close>, for the
  slots 12 to 15; it returns; and when it succeeds the vector it leaves is the one it
  was given with the slots 8 to 15 filled.
\<close>

theorem correctVertices_insufficient_separation:
  assumes "vertexAt vs 4 = Inr topLeft" and "vertexAt vs 5 = Inr bottomLeft"
    and "vertexAt vs 6 = Inr topRight" and "vertexAt vs 7 = Inr bottomRight"
  shows "((correctVertices matrix vs upsideDown = Some (Inl NotEnoughGuardPatterns))
          = (\<bar>getY topLeft - getY bottomLeft\<bar> < 20 \<or> \<bar>getY topRight - getY bottomRight\<bar> < 20))
     \<and> (\<not> (\<bar>getY topLeft - getY bottomLeft\<bar> < 20 \<or> \<bar>getY topRight - getY bottomRight\<bar> < 20)
        \<longrightarrow>
          correctVertices matrix vs upsideDown =
          map_option
            (\<lambda>r. andThen r (\<lambda>(vs, tested).
               andThen (findCrossingPoint vs 12 4 5 8 10 matrix) (\<lambda>vs.
               andThen (findCrossingPoint vs 13 4 5 9 11 matrix) (\<lambda>vs.
               andThen (findCrossingPoint vs 14 6 7 8 10 matrix) (\<lambda>vs.
               andThen (findCrossingPoint vs 15 6 7 9 11 matrix) (\<lambda>vs.
                 Inr (vs, tested)))))))
            (thenWideBar (thenWideBar (thenWideBar
              (findWideBarTopBottom matrix vs 0 0 8 17 (if upsideDown then 1 else - 1))
              (\<lambda>vs. findWideBarTopBottom matrix vs 1 0 8 17 (if upsideDown then - 1 else 1)))
              (\<lambda>vs. findWideBarTopBottom matrix vs 2 11 7 18 (if upsideDown then 1 else - 1)))
              (\<lambda>vs. findWideBarTopBottom matrix vs 3 11 7 18 (if upsideDown then - 1 else 1)))
        \<and> (\<exists>r. correctVertices matrix vs upsideDown = Some r)
        \<and> (\<forall>vs' tested. correctVertices matrix vs upsideDown = Some (Inr (vs', tested)) \<longrightarrow>
              (\<exists>q8 q9 q10 q11 q12 q13 q14 q15.
                 vs' = vs[8 := Some q8, 9 := Some q9, 10 := Some q10, 11 := Some q11,
                          12 := Some q12, 13 := Some q13, 14 := Some q14, 15 := Some q15])))"
proof (intro conjI impI allI)
  show "(correctVertices matrix vs upsideDown = Some (Inl NotEnoughGuardPatterns))
          = (\<bar>getY topLeft - getY bottomLeft\<bar> < 20 \<or> \<bar>getY topRight - getY bottomRight\<bar> < 20)"
    using assms by (rule correctVertices_guard)
next
  assume "\<not> (\<bar>getY topLeft - getY bottomLeft\<bar> < 20 \<or> \<bar>getY topRight - getY bottomRight\<bar> < 20)"
  with assms show "correctVertices matrix vs upsideDown =
          map_option
            (\<lambda>r. andThen r (\<lambda>(vs, tested).
               andThen (findCrossingPoint vs 12 4 5 8 10 matrix) (\<lambda>vs.
               andThen (findCrossingPoint vs 13 4 5 9 11 matrix) (\<lambda>vs.
               andThen (findCrossingPoint vs 14 6 7 8 10 matrix) (\<lambda>vs.
               andThen (findCrossingPoint vs 15 6 7 9 11 matrix) (\<lambda>vs.
                 Inr (vs, tested)))))))
            (thenWideBar (thenWideBar (thenWideBar
              (findWideBarTopBottom matrix vs 0 0 8 17 (if upsideDown then 1 else - 1))
              (\<lambda>vs. findWideBarTopBottom matrix vs 1 0 8 17 (if upsideDown then - 1 else 1)))
              (\<lambda>vs. findWideBarTopBottom matrix vs 2 11 7 18 (if upsideDown then 1 else - 1)))
              (\<lambda>vs. findWideBarTopBottom matrix vs 3 11 7 18 (if upsideDown then - 1 else 1)))"
    by (rule correctVertices_proceeds)
next
  show "\<exists>r. correctVertices matrix vs upsideDown = Some r"
    by (rule correctVertices_returns)
next
  fix vs' tested
  assume "correctVertices matrix vs upsideDown = Some (Inr (vs', tested))"
  then show "\<exists>q8 q9 q10 q11 q12 q13 q14 q15.
                 vs' = vs[8 := Some q8, 9 := Some q9, 10 := Some q10, 11 := Some q11,
                          12 := Some q12, 13 := Some q13, 14 := Some q14, 15 := Some q15]"
    by (rule correctVertices_filled)
qed

theorem correctVertices_insufficient_separation_witness:
  "vertexAt symbolVertices 4 = Inr \<lparr>getX = 18, getY = 16\<rparr>
   \<and> vertexAt symbolVertices 5 = Inr \<lparr>getX = 18, getY = 40\<rparr>
   \<and> vertexAt symbolVertices 6 = Inr \<lparr>getX = 35, getY = 16\<rparr>
   \<and> vertexAt symbolVertices 7 = Inr \<lparr>getX = 35, getY = 40\<rparr>
   \<and> correctVertices symbolImage symbolVertices False \<noteq> Some (Inl NotEnoughGuardPatterns)
   \<and> (\<exists>tested. correctVertices symbolImage symbolVertices False
          = Some (Inr (correctedVertices, tested)))
   \<and> (\<exists>q8 q9 q10 q11 q12 q13 q14 q15.
         correctedVertices =
           symbolVertices[8 := Some q8, 9 := Some q9, 10 := Some q10, 11 := Some q11,
                          12 := Some q12, 13 := Some q13, 14 := Some q14, 15 := Some q15])
   \<and> correctVertices symbolImage (symbolVertices[5 := newResultPoint 18 35]) False
       = Some (Inl NotEnoughGuardPatterns)"
proof -
  note t = correctVertices_insufficient_separation[OF vertexAt_symbolVertices(5-8),
      of symbolImage False]
  have a: "correctVertices symbolImage symbolVertices False \<noteq> Some (Inl NotEnoughGuardPatterns)"
    using t[THEN conjunct1] by simp
  from correctVertices_symbolImage obtain tested where
    ok: "correctVertices symbolImage symbolVertices False = Some (Inr (correctedVertices, tested))"
    by blast
  have far: "\<not> (\<bar>getY \<lparr>getX = 18, getY = 16\<rparr> - getY \<lparr>getX = 18, getY = 40\<rparr>\<bar> < (20 :: real)
        \<or> \<bar>getY \<lparr>getX = 35, getY = 16\<rparr> - getY \<lparr>getX = 35, getY = 40\<rparr>\<bar> < (20 :: real))"
    by simp
  from t[THEN conjunct2] far ok have c: "\<exists>q8 q9 q10 q11 q12 q13 q14 q15.
         correctedVertices =
           symbolVertices[8 := Some q8, 9 := Some q9, 10 := Some q10, 11 := Some q11,
                          12 := Some q12, 13 := Some q13, 14 := Some q14, 15 := Some q15]"
    by blast
  have v: "vertexAt (symbolVertices[5 := newResultPoint 18 35]) 4 = Inr \<lparr>getX = 18, getY = 16\<rparr>"
    "vertexAt (symbolVertices[5 := newResultPoint 18 35]) 5 = Inr \<lparr>getX = 18, getY = 35\<rparr>"
    "vertexAt (symbolVertices[5 := newResultPoint 18 35]) 6 = Inr \<lparr>getX = 35, getY = 16\<rparr>"
    "vertexAt (symbolVertices[5 := newResultPoint 18 35]) 7 = Inr \<lparr>getX = 35, getY = 40\<rparr>"
    by (simp_all add: vertexAt_def symbolVertices_def newResultPoint_def)
  have b: "correctVertices symbolImage (symbolVertices[5 := newResultPoint 18 35]) False
       = Some (Inl NotEnoughGuardPatterns)"
    using correctVertices_insufficient_separation[OF v, of symbolImage False, THEN conjunct1]
    by simp
  from a b c ok vertexAt_symbolVertices(5-8) show ?thesis by blast
qed

text \<open>In \<open>symbolVertices\<close>, the vertices of \<open>symbolImage\<close>, every outer corner is in the
  same row as the inner corner it is paired with, on the left and on the right, and
  \<^verbatim>\<open>correctVertices\<close> does not fail for want of guard patterns: it succeeds.\<close>

theorem correctVertices_outer_inner_counterexample:
  "findVertices symbolImage 8 = Some symbolVertices
   \<and> pairedRowsClose symbolVertices 0 \<and> pairedRowsClose symbolVertices 1
   \<and> pairedRowsClose symbolVertices 2 \<and> pairedRowsClose symbolVertices 3
   \<and> (\<exists>tested. correctVertices symbolImage symbolVertices False
          = Some (Inr (correctedVertices, tested)))
   \<and> correctVertices symbolImage symbolVertices False \<noteq> Some (Inl NotEnoughGuardPatterns)"
proof -
  have "pairedRowsClose symbolVertices 0" "pairedRowsClose symbolVertices 1"
    "pairedRowsClose symbolVertices 2" "pairedRowsClose symbolVertices 3"
    unfolding pairedRowsClose_def by (simp_all add: vertexAt_def symbolVertices_def)
  moreover have "correctVertices symbolImage symbolVertices False
                 \<noteq> Some (Inl NotEnoughGuardPatterns)"
    using correctVertices_symbolImage by auto
  ultimately show ?thesis
    using findVertices_symbolImage correctVertices_symbolImage by blast
qed


















lemma detect_testCollaborators_symbolImage:
  "fst (detect testCollaborators \<lparr>image' = symbolImage\<rparr>) =
     Some (Inr \<lparr>bits = whiteMatrix 192 68,
                points = [newResultPoint 0 68, newResultPoint 0 0, newResultPoint 192 0,
                          newResultPoint 192 68]\<rparr>)"
  unfolding testCollaborators_def detect_symbolImage
  by (simp add: andThen_def whiteMatrix_def)

theorem detect_orientation_policy_witness:
  "findVertices whitePixel 8 = Some [] \<and> findVertices180 whitePixel 8 = Some []
   \<and> fst (detect testCollaborators \<lparr>image' = whitePixel\<rparr>) = Some (Inl NoVerticesFound)
   \<and> findVertices symbolImage 8 = Some symbolVertices \<and> symbolVertices \<noteq> []
   \<and> map_option (\<lambda>r. andThen r (\<lambda>(vs', tested).
          andThen (measureSymbol testCollaborators vs') (sampleSymbol testCollaborators symbolImage vs')))
         (correctVertices symbolImage symbolVertices False)
       = Some (Inr \<lparr>bits = whiteMatrix 192 68,
                points = [newResultPoint 0 68, newResultPoint 0 0, newResultPoint 192 0,
                          newResultPoint 192 68]\<rparr>)
   \<and> findVertices rotatedImage 8 = Some []
   \<and> findVertices180 rotatedImage 8 = Some rotatedVertices \<and> rotatedVertices \<noteq> []
   \<and> fst (detect testCollaborators \<lparr>image' = rotatedImage\<rparr>) =
       map_option (\<lambda>r. andThen r (\<lambda>(vs', tested).
          andThen (measureSymbol testCollaborators vs') (sampleSymbol testCollaborators rotatedImage vs')))
         (correctVertices rotatedImage rotatedVertices True)"
proof -
  have ne: "symbolVertices \<noteq> []" by (simp add: symbolVertices_def)
  have ne': "rotatedVertices \<noteq> []" by (simp add: rotatedVertices_def)
  from detect_orientation_policy[of whitePixel testCollaborators]
    findVertices_whitePixel_8 findVertices180_whitePixel_8
  have "fst (detect testCollaborators \<lparr>image' = whitePixel\<rparr>) = Some (Inl NoVerticesFound)"
    by simp
  moreover from detect_orientation_policy[of symbolImage testCollaborators]
    findVertices_symbolImage ne
  have "fst (detect testCollaborators \<lparr>image' = symbolImage\<rparr>) =
       map_option (\<lambda>r. andThen r (\<lambda>(vs', tested).
          andThen (measureSymbol testCollaborators vs') (sampleSymbol testCollaborators symbolImage vs')))
         (correctVertices symbolImage symbolVertices False)"
    by blast
  moreover from detect_orientation_policy[of rotatedImage testCollaborators]
    findVertices_rotatedImage findVertices180_rotatedImage ne'
  have "fst (detect testCollaborators \<lparr>image' = rotatedImage\<rparr>) =
       map_option (\<lambda>r. andThen r (\<lambda>(vs', tested).
          andThen (measureSymbol testCollaborators vs') (sampleSymbol testCollaborators rotatedImage vs')))
         (correctVertices rotatedImage rotatedVertices True)"
    by simp
  ultimately show ?thesis
    using findVertices_whitePixel_8 findVertices180_whitePixel_8 findVertices_symbolImage ne
      findVertices_rotatedImage findVertices180_rotatedImage ne'
      detect_testCollaborators_symbolImage
    by simp
qed



subsection \<open>The sampling rectangle\<close>

text \<open>
  C4. On \<open>symbolImage\<close>, with the Euclidean distance and any two samplers,
  \<^verbatim>\<open>detect\<close> measures a row dimension of 17 and a column dimension of 24, and calls
  \<^verbatim>\<open>sampleLines(vertices, dimension, yDimension)\<close>, whose parameters are declared as
  \<^verbatim>\<open>(vertices, dimensionY, dimension)\<close>: the rectangle handed to the transform and to
  the grid sampler is \<open>24 * 8 = 192\<close> wide and \<open>17 * 4 = 68\<close> high, and not
  \<open>17 * 8\<close> by \<open>24 * 4\<close>. Its corners \<open>(0,0)\<close>, \<open>(192,0)\<close>, \<open>(0,68)\<close> and \<open>(192,68)\<close>
  go with the corners 12, 14, 13 and 15.
\<close>

theorem sampleLines_dimensions_exchanged:
  "(\<exists>tested. locateVertices symbolImage = Some (Inr (correctedVertices, tested)))
   \<and> measureSymbol \<lparr>distance = euclidean, sampleGrid = sg, linesSample = ls\<rparr> correctedVertices
       = Inr \<lparr>moduleWidth = 1, dimension = 17, yDimension = 24\<rparr>
   \<and> fst (detect \<lparr>distance = euclidean, sampleGrid = sg, linesSample = ls\<rparr> \<lparr>image' = symbolImage\<rparr>)
     = Some (andThen
         (sg symbolImage 192 68
            \<lparr>x0 = 0, y0 = 0, x1 = 192, y1 = 0, x2 = 0, y2 = 68, x3 = 192, y3 = 68,
             x0p = 18, y0p = 16, x1p = 35, y1p = 16, x2p = 18, y2p = 40, x3p = 35, y3p = 40\<rparr>)
         (\<lambda>linesMatrix. andThen (ls linesMatrix 17) (\<lambda>linesGrid.
            Inr \<lparr>bits = linesGrid,
                 points =
                   [newResultPoint 0 (of_nat (getHeight linesMatrix)),
                    newResultPoint 0 0,
                    newResultPoint (of_nat (getWidth linesMatrix)) 0,
                    newResultPoint (of_nat (getWidth linesMatrix))
                      (of_nat (getHeight linesMatrix))]\<rparr>)))"
  using locateVertices_symbolImage measureSymbol_corrected detect_symbolImage by blast

subsection \<open>Repeated detection\<close>





subsection \<open>Scaling and single runs\<close>

lemma scaled_quotient:
  fixes a P k :: nat
  assumes "0 < P" and "1 \<le> k"
  shows "k * (a div P) \<le> (k * a) div P \<and> (k * a) div P \<le> k * (a div P) + (k - 1)"
proof -
  have e: "k * a = k * (a mod P) + (k * (a div P)) * P"
  proof -
    have "k * a = k * (P * (a div P) + a mod P)" by (simp only: mult_div_mod_eq)
    also have "\<dots> = k * (P * (a div P)) + k * (a mod P)" by (rule distrib_left)
    also have "k * (P * (a div P)) = (k * (a div P)) * P" by (simp only: mult.assoc mult.commute mult.left_commute)
    finally show ?thesis by (simp only: add.commute)
  qed
  have q: "(k * a) div P = k * (a div P) + (k * (a mod P)) div P"
    unfolding e using assms(1) by (subst div_mult_self1) simp_all
  have "a mod P < P" using assms(1) by simp
  then have "k * (a mod P) < k * P" using assms(2) by simp
  then have "(k * (a mod P)) div P < k" by (rule less_mult_imp_div_less)
  with q show ?thesis by simp
qed

lemma scaled_floor:
  fixes m k :: int
  assumes "0 \<le> m" and "0 \<le> k"
  shows "k * (m div 256) \<le> (k * m) div 256"
proof -
  have "256 * (m div 256) \<le> m" by simp
  then have "k * (256 * (m div 256)) \<le> k * m" using assms(2) by (rule mult_left_mono)
  then have "(k * (m div 256)) * 256 \<le> k * m" by (simp add: algebra_simps)
  then have "((k * (m div 256)) * 256) div 256 \<le> (k * m) div 256" by (rule zdiv_mono1) simp
  then show ?thesis by simp
qed


lemma patternMatchVariance_scaled_margin:
  fixes counters pattern :: "nat list" and k :: nat
  assumes len: "length pattern = length counters" and P: "0 < sum_list pattern"
    and TP: "sum_list pattern \<le> sum_list counters"
    and k: "1 \<le> k" and m0: "0 \<le> miv"
    and u: "u = int ((sum_list counters * 2 ^ 8) div sum_list pattern)"
    and margin: "\<forall>i < length counters.
        elementVariance counters pattern u i + int (pattern ! i) \<le> (miv * u) div 2 ^ 8"
    and score: "((\<Sum>i < length counters. elementVariance counters pattern u i)
                  + int (sum_list pattern)) div int (sum_list counters) < t"
    and bT: "k * sum_list counters < 2 ^ 22"
    and bM: "miv * int ((k * sum_list counters * 2 ^ 8) div sum_list pattern) < 2 ^ 31"
  shows "patternMatchVariance (map ((*) k) counters) pattern miv < t"
proof -
  define T where "T = sum_list counters"
  define Pp where "Pp = sum_list pattern"
  define cs where "cs = map ((*) k) counters"
  define u' where "u' = int ((k * T * 2 ^ 8) div Pp)"
  define S where "S = (\<Sum>i < length counters. elementVariance counters pattern u i)"
  define S' where "S' = (\<Sum>i < length counters. elementVariance cs pattern u' i)"
  have lcs: "length cs = length counters" by (simp add: cs_def)
  have Tcs: "sum_list cs = k * T" by (simp add: cs_def T_def sum_list_const_mult)
  have uu: "u = int ((T * 2 ^ 8) div Pp)" by (simp add: u T_def Pp_def)
  have u0: "0 \<le> u" by (simp add: uu)
  from scaled_quotient[of Pp k "T * 2 ^ 8"] P k
  have "k * ((T * 2 ^ 8) div Pp) \<le> (k * (T * 2 ^ 8)) div Pp"
    and "(k * (T * 2 ^ 8)) div Pp \<le> k * ((T * 2 ^ 8) div Pp) + (k - 1)"
    by (simp_all add: Pp_def)
  then have "int (k * ((T * 2 ^ 8) div Pp)) \<le> int ((k * (T * 2 ^ 8)) div Pp)"
    and "int ((k * (T * 2 ^ 8)) div Pp) \<le> int (k * ((T * 2 ^ 8) div Pp) + (k - 1))"
    by (simp_all only: of_nat_le_iff)
  then have lo: "int k * u \<le> u'" and hi: "u' \<le> int k * u + (int k - 1)"
    using k by (simp_all add: uu u'_def mult.assoc of_nat_diff)
  have k0: "0 \<le> int k" by simp
  have cap: "int k * ((miv * u) div 2 ^ 8) \<le> (miv * u') div 2 ^ 8"
  proof -
    have "int k * ((miv * u) div 256) \<le> (int k * (miv * u)) div 256"
      using m0 u0 by (intro scaled_floor) simp_all
    also have "int k * (miv * u) = miv * (int k * u)" by (simp add: algebra_simps)
    also have "(miv * (int k * u)) div 256 \<le> (miv * u') div 256"
      using lo m0 by (intro zdiv_mono1 mult_left_mono) simp_all
    finally show ?thesis by simp
  qed
  have ev: "elementVariance cs pattern u' i
            \<le> int k * elementVariance counters pattern u i + int (pattern ! i) * (int k - 1)"
    if "i < length counters" for i
  proof -
    have "int (cs ! i) * 2 ^ 8 - int (pattern ! i) * u'
          = int k * (int (counters ! i) * 2 ^ 8 - int (pattern ! i) * u)
            - int (pattern ! i) * (u' - int k * u)"
      using that by (simp add: cs_def algebra_simps)
    then have "elementVariance cs pattern u' i
          \<le> \<bar>int k * (int (counters ! i) * 2 ^ 8 - int (pattern ! i) * u)\<bar>
            + \<bar>int (pattern ! i) * (u' - int k * u)\<bar>"
      unfolding elementVariance_def by (simp only: abs_triangle_ineq4)
    also have "\<bar>int k * (int (counters ! i) * 2 ^ 8 - int (pattern ! i) * u)\<bar>
               = int k * elementVariance counters pattern u i"
      by (simp add: elementVariance_def abs_mult)
    also have "\<bar>int (pattern ! i) * (u' - int k * u)\<bar> = int (pattern ! i) * (u' - int k * u)"
      using lo by (simp add: abs_mult)
    also have "int (pattern ! i) * (u' - int k * u) \<le> int (pattern ! i) * (int k - 1)"
      using hi by (intro mult_left_mono) simp_all
    finally show ?thesis by simp
  qed
  have within: "\<not> (miv * u') div 2 ^ 8 < elementVariance cs pattern u' i"
    if "i < length counters" for i
  proof -
    from margin that have "elementVariance counters pattern u i + int (pattern ! i)
        \<le> (miv * u) div 2 ^ 8" by blast
    then have "int k * (elementVariance counters pattern u i + int (pattern ! i))
        \<le> int k * ((miv * u) div 2 ^ 8)" using k0 by (rule mult_left_mono)
    moreover have "int k * elementVariance counters pattern u i + int (pattern ! i) * (int k - 1)
        \<le> int k * (elementVariance counters pattern u i + int (pattern ! i))"
      by (simp add: algebra_simps)
    ultimately show ?thesis using ev[OF that] cap by linarith
  qed
  have S'le: "S' \<le> int k * (S + int Pp)"
  proof -
    have "S' \<le> (\<Sum>i < length counters.
                int k * elementVariance counters pattern u i + int (pattern ! i) * (int k - 1))"
      unfolding S'_def using ev by (intro sum_mono) simp
    also have "\<dots> = int k * S + (\<Sum>i < length counters. int (pattern ! i)) * (int k - 1)"
      by (simp add: S_def sum.distrib sum_distrib_left sum_distrib_right)
    also have "(\<Sum>i < length counters. int (pattern ! i)) = int Pp"
      using len by (simp add: Pp_def sum_list_sum_nth atLeast0LessThan)
    also have "int k * S + int Pp * (int k - 1) \<le> int k * (S + int Pp)"
      by (simp add: algebra_simps)
    finally show ?thesis .
  qed
  have Tpos: "0 < int T" using P TP by (simp add: T_def)
  have kpos: "0 < int k" using k by simp
  have "S' div int (k * T) \<le> (int k * (S + int Pp)) div int (k * T)"
    using S'le by (rule zdiv_mono1) (use Tpos kpos in simp)
  also have "\<dots> = (S + int Pp) div int T"
    using kpos by simp
  finally have fin: "S' div int (k * T) < t" using score by (simp add: S_def T_def Pp_def)
  have notless: "\<not> k * T < Pp"
  proof -
    have "Pp \<le> T" using TP by (simp add: T_def Pp_def)
    also have "T \<le> k * T" using k by simp
    finally show ?thesis by simp
  qed
  have bT': "sum_list cs < 2 ^ 22" using bT by (simp add: Tcs T_def)
  have bM': "miv * int ((sum_list cs * 2 ^ 8) div sum_list pattern) < 2 ^ 31"
    using bM by (simp add: Tcs T_def)
  have l': "length pattern = length cs" using len lcs by simp
  note cl = patternMatchVariance_closed[OF l' P bT' m0 bM', unfolded Let_def Tcs,
      folded Pp_def, folded u'_def, unfolded lcs, folded S'_def]
  show ?thesis
    unfolding cs_def[symmetric] cl using notless within fin by auto
qed

lemma patternMatchVariance_perturbed:
  fixes counters pattern :: "nat list"
  assumes len: "length pattern = length counters" and P: "0 < sum_list pattern"
    and i: "i < length counters" and m0: "0 \<le> miv"
    and u: "u = int ((sum_list counters * 2 ^ 8) div sum_list pattern)"
    and u': "u' = int ((sum_list (counters[i := r]) * 2 ^ 8) div sum_list pattern)"
    and far: "(miv * u') div 2 ^ 8 + elementVariance counters pattern u i
                + int (pattern ! i) * \<bar>u' - u\<bar>
              < 2 ^ 8 * \<bar>int r - int (counters ! i)\<bar>"
    and bT: "sum_list (counters[i := r]) < 2 ^ 22"
    and bM: "miv * u' < 2 ^ 31"
  shows "patternMatchVariance (counters[i := r]) pattern miv = INT_MAX"
proof -
  define cs where "cs = counters[i := r]"
  have l': "length pattern = length cs" using len by (simp add: cs_def)
  have bM': "miv * int ((sum_list cs * 2 ^ 8) div sum_list pattern) < 2 ^ 31"
    using bM by (simp add: u' cs_def)
  define A where "A = 2 ^ 8 * (int r - int (counters ! i))"
  define B where "B = (int (counters ! i) * 2 ^ 8 - int (pattern ! i) * u)
                       - int (pattern ! i) * (u' - u)"
  define X where "X = int (cs ! i) * 2 ^ 8 - int (pattern ! i) * u'"
  have "X = A + B" using i by (simp add: X_def A_def B_def cs_def algebra_simps)
  then have "A = X - B" by simp
  then have t1: "\<bar>A\<bar> \<le> \<bar>X\<bar> + \<bar>B\<bar>" by (simp only: abs_triangle_ineq4)
  have a: "\<bar>A\<bar> = 2 ^ 8 * \<bar>int r - int (counters ! i)\<bar>"
    unfolding A_def by (subst abs_mult) simp
  have "\<bar>B\<bar> \<le> \<bar>int (counters ! i) * 2 ^ 8 - int (pattern ! i) * u\<bar>
              + \<bar>int (pattern ! i) * (u' - u)\<bar>"
    unfolding B_def by (rule abs_triangle_ineq4)
  also have "\<bar>int (pattern ! i) * (u' - u)\<bar> = int (pattern ! i) * \<bar>u' - u\<bar>"
    by (simp add: abs_mult)
  finally have b: "\<bar>B\<bar> \<le> elementVariance counters pattern u i + int (pattern ! i) * \<bar>u' - u\<bar>"
    by (simp add: elementVariance_def)
  have x: "\<bar>X\<bar> = elementVariance cs pattern u' i" by (simp add: X_def elementVariance_def)
  from t1 a b x far have "(miv * u') div 2 ^ 8 < elementVariance cs pattern u' i"
    by linarith
  then have ex: "\<exists>j < length cs. (miv * u') div 2 ^ 8 < elementVariance cs pattern u' j"
    using i by (auto simp add: cs_def)
  show ?thesis
    unfolding cs_def[symmetric]
      patternMatchVariance_closed[OF l' P bT[folded cs_def] m0 bM', unfolded Let_def,
        folded u'[folded cs_def]]
    using ex by simp
qed

text \<open>
  C8, as the code has it. \<open>unitBarWidth\<close> is a quotient cut off to an integer, so a
  scaled sequence is not judged exactly as the sequence itself. What holds is this. If
  a sequence matches with a margin, every element's scaled difference being at least
  its pattern element below the cap and the score staying under \<open>MAX_AVG_VARIANCE\<close>
  when the total of the pattern is added to the sum of the differences, then for
  every factor \<open>k\<close> from 1 on, as far as the arithmetic stays within 32 bits, \<open>k\<close>
  times the sequence scores under \<open>MAX_AVG_VARIANCE\<close>. And if one run is changed, the
  sequence is rejected with the maximal score whenever the change, in scaled units,
  exceeds the cap of the changed sequence by more than the scaled difference the run
  had before plus the shift \<open>pattern[i] * |u' - u|\<close> of its expected width, \<open>u\<close> and
  \<open>u'\<close> being \<open>unitBarWidth\<close> before and after the change.
\<close>

theorem patternMatchVariance_scale_and_cap:
  assumes "length pattern = length counters" and "0 < sum_list pattern"
  shows
    "(let u = int ((sum_list counters * 2 ^ 8) div sum_list pattern)
      in (\<forall>k. sum_list pattern \<le> sum_list counters \<and> 1 \<le> k
              \<and> (\<forall>i < length counters.
                    elementVariance counters pattern u i + int (pattern ! i)
                      \<le> (MAX_INDIVIDUAL_VARIANCE * u) div 2 ^ 8)
              \<and> ((\<Sum>i < length counters. elementVariance counters pattern u i)
                    + int (sum_list pattern)) div int (sum_list counters) < MAX_AVG_VARIANCE
              \<and> k * sum_list counters < 2 ^ 22
              \<and> MAX_INDIVIDUAL_VARIANCE
                    * int ((k * sum_list counters * 2 ^ 8) div sum_list pattern) < 2 ^ 31
            \<longrightarrow> patternMatchVariance (map ((*) k) counters) pattern MAX_INDIVIDUAL_VARIANCE
                  < MAX_AVG_VARIANCE)
       \<and> (\<forall>i r u'. i < length counters
              \<and> u' = int ((sum_list (counters[i := r]) * 2 ^ 8) div sum_list pattern)
              \<and> (MAX_INDIVIDUAL_VARIANCE * u') div 2 ^ 8 + elementVariance counters pattern u i
                    + int (pattern ! i) * \<bar>u' - u\<bar>
                  < 2 ^ 8 * \<bar>int r - int (counters ! i)\<bar>
              \<and> sum_list (counters[i := r]) < 2 ^ 22
              \<and> MAX_INDIVIDUAL_VARIANCE * u' < 2 ^ 31
            \<longrightarrow> patternMatchVariance (counters[i := r]) pattern MAX_INDIVIDUAL_VARIANCE
                  = INT_MAX))"
proof -
  have m0: "0 \<le> MAX_INDIVIDUAL_VARIANCE" by (simp add: MAX_INDIVIDUAL_VARIANCE_def)
  show ?thesis
    unfolding Let_def
  proof (intro conjI allI impI)
    fix k
    assume a: "sum_list pattern \<le> sum_list counters \<and> 1 \<le> k
              \<and> (\<forall>i < length counters.
                    elementVariance counters pattern
                      (int ((sum_list counters * 2 ^ 8) div sum_list pattern)) i
                    + int (pattern ! i)
                      \<le> (MAX_INDIVIDUAL_VARIANCE
                           * int ((sum_list counters * 2 ^ 8) div sum_list pattern)) div 2 ^ 8)
              \<and> ((\<Sum>i < length counters. elementVariance counters pattern
                       (int ((sum_list counters * 2 ^ 8) div sum_list pattern)) i)
                    + int (sum_list pattern)) div int (sum_list counters) < MAX_AVG_VARIANCE
              \<and> k * sum_list counters < 2 ^ 22
              \<and> MAX_INDIVIDUAL_VARIANCE
                    * int ((k * sum_list counters * 2 ^ 8) div sum_list pattern) < 2 ^ 31"
    show "patternMatchVariance (map ((*) k) counters) pattern MAX_INDIVIDUAL_VARIANCE
                  < MAX_AVG_VARIANCE"
      by (rule patternMatchVariance_scaled_margin[OF assms _ _ m0 refl]) (use a in blast)+
  next
    fix i r u'
    assume a: "i < length counters
              \<and> u' = int ((sum_list (counters[i := r]) * 2 ^ 8) div sum_list pattern)
              \<and> (MAX_INDIVIDUAL_VARIANCE * u') div 2 ^ 8
                    + elementVariance counters pattern
                        (int ((sum_list counters * 2 ^ 8) div sum_list pattern)) i
                    + int (pattern ! i)
                      * \<bar>u' - int ((sum_list counters * 2 ^ 8) div sum_list pattern)\<bar>
                  < 2 ^ 8 * \<bar>int r - int (counters ! i)\<bar>
              \<and> sum_list (counters[i := r]) < 2 ^ 22
              \<and> MAX_INDIVIDUAL_VARIANCE * u' < 2 ^ 31"
    show "patternMatchVariance (counters[i := r]) pattern MAX_INDIVIDUAL_VARIANCE = INT_MAX"
      by (rule patternMatchVariance_perturbed[OF assms _ m0 refl, of i u' r]) (use a in blast)+
  qed
qed

lemmas eval_pmv = patternMatchVariance_def pmvTotals_def pmvLoop.simps Let_def int32_def
  START_PATTERN_def MAX_INDIVIDUAL_VARIANCE_def MAX_AVG_VARIANCE_def INT_MAX_def upt_rec

lemma pmv_examples:
  "patternMatchVariance [17, 2, 2, 2, 2, 2, 2, 5] START_PATTERN MAX_INDIVIDUAL_VARIANCE = 15"
  "patternMatchVariance [86, 21, 12, 12, 12, 12, 12, 36] START_PATTERN MAX_INDIVIDUAL_VARIANCE = 24"
  "patternMatchVariance [172, 42, 24, 24, 24, 24, 24, 72] START_PATTERN MAX_INDIVIDUAL_VARIANCE
     = INT_MAX"
  "patternMatchVariance [16, 2, 2, 2, 2, 2, 2, 6] START_PATTERN MAX_INDIVIDUAL_VARIANCE = 0"
  "patternMatchVariance [18, 2, 2, 2, 2, 2, 2, 6] START_PATTERN MAX_INDIVIDUAL_VARIANCE = 15"
  "patternMatchVariance [349537, 41122, 41122, 41122, 41122, 41122, 41122, 102805] START_PATTERN
     MAX_INDIVIDUAL_VARIANCE = INT_MAX"
  by (simp_all add: eval_pmv)

lemma all8: "(\<forall>i < 8. Q i) = (Q 0 \<and> Q 1 \<and> Q 2 \<and> Q 3 \<and> Q 4 \<and> Q 5 \<and> Q 6 \<and> Q (7 :: nat))"
proof
  assume "\<forall>i < 8. Q i" then show "Q 0 \<and> Q 1 \<and> Q 2 \<and> Q 3 \<and> Q 4 \<and> Q 5 \<and> Q 6 \<and> Q 7" by simp
next
  assume a: "Q 0 \<and> Q 1 \<and> Q 2 \<and> Q 3 \<and> Q 4 \<and> Q 5 \<and> Q 6 \<and> Q 7"
  show "\<forall>i < 8. Q i"
  proof (intro allI impI)
    fix i :: nat assume "i < 8"
    then have "i = 0 \<or> i = 1 \<or> i = 2 \<or> i = 3 \<or> i = 4 \<or> i = 5 \<or> i = 6 \<or> i = 7" by linarith
    with a show "Q i" by blast
  qed
qed

lemma set8: "{..< (8 :: nat)} = {0, 1, 2, 3, 4, 5, 6, 7}"
  by auto

lemma sum8: "(\<Sum>i < 8. f i) = f 0 + f 1 + f 2 + f 3 + f 4 + f 5 + f 6 + f (7 :: nat)" for f :: "nat \<Rightarrow> int"
  unfolding set8 by simp

theorem patternMatchVariance_scale_and_cap_witness:
  "length START_PATTERN = length [9, 1, 1, 1, 1, 1, 1, 3 :: nat] \<and> 0 < sum_list START_PATTERN
   \<and> patternMatchVariance (map ((*) 3) [9, 1, 1, 1, 1, 1, 1, 3]) START_PATTERN
         MAX_INDIVIDUAL_VARIANCE < MAX_AVG_VARIANCE
   \<and> patternMatchVariance ([9, 1, 1, 1, 1, 1, 1, 3][1 := 4]) START_PATTERN
         MAX_INDIVIDUAL_VARIANCE = INT_MAX"
proof -
  have h1: "length START_PATTERN = length [9, 1, 1, 1, 1, 1, 1, 3 :: nat]"
    by (simp add: START_PATTERN_def)
  have h2: "0 < sum_list START_PATTERN"
    by (simp add: START_PATTERN_def)
  have u: "int ((sum_list [9, 1, 1, 1, 1, 1, 1, 3] * 2 ^ 8) div sum_list START_PATTERN) = 271"
    by (simp add: START_PATTERN_def)
  note t = patternMatchVariance_scale_and_cap[OF h1 h2, unfolded Let_def u]
  have l8: "length [9, 1, 1, 1, 1, 1, 1, 3 :: nat] = 8" by simp
  have a1: "\<forall>i < length [9, 1, 1, 1, 1, 1, 1, 3 :: nat].
            elementVariance [9, 1, 1, 1, 1, 1, 1, 3] START_PATTERN 271 i + int (START_PATTERN ! i)
              \<le> (MAX_INDIVIDUAL_VARIANCE * 271) div 2 ^ 8"
    unfolding l8
    by (subst all8) (simp add: elementVariance_def START_PATTERN_def MAX_INDIVIDUAL_VARIANCE_def)
  have a2: "((\<Sum>i < length [9, 1, 1, 1, 1, 1, 1, 3 :: nat].
              elementVariance [9, 1, 1, 1, 1, 1, 1, 3] START_PATTERN 271 i)
            + int (sum_list START_PATTERN)) div int (sum_list [9, 1, 1, 1, 1, 1, 1, 3])
          < MAX_AVG_VARIANCE"
    unfolding l8
    by (subst sum8) (simp add: elementVariance_def START_PATTERN_def MAX_AVG_VARIANCE_def)
  have a3: "sum_list START_PATTERN \<le> sum_list [9, 1, 1, 1, 1, 1, 1, 3 :: nat] \<and> (1 :: nat) \<le> 3
      \<and> 3 * sum_list [9, 1, 1, 1, 1, 1, 1, 3 :: nat] < 2 ^ 22
      \<and> MAX_INDIVIDUAL_VARIANCE
            * int ((3 * sum_list [9, 1, 1, 1, 1, 1, 1, 3] * 2 ^ 8) div sum_list START_PATTERN) < 2 ^ 31"
    by (simp add: START_PATTERN_def MAX_INDIVIDUAL_VARIANCE_def)
  have a: "sum_list START_PATTERN \<le> sum_list [9, 1, 1, 1, 1, 1, 1, 3 :: nat] \<and> (1 :: nat) \<le> 3
      \<and> (\<forall>i < length [9, 1, 1, 1, 1, 1, 1, 3 :: nat].
            elementVariance [9, 1, 1, 1, 1, 1, 1, 3] START_PATTERN 271 i + int (START_PATTERN ! i)
              \<le> (MAX_INDIVIDUAL_VARIANCE * 271) div 2 ^ 8)
      \<and> ((\<Sum>i < length [9, 1, 1, 1, 1, 1, 1, 3 :: nat].
              elementVariance [9, 1, 1, 1, 1, 1, 1, 3] START_PATTERN 271 i)
            + int (sum_list START_PATTERN)) div int (sum_list [9, 1, 1, 1, 1, 1, 1, 3])
          < MAX_AVG_VARIANCE
      \<and> 3 * sum_list [9, 1, 1, 1, 1, 1, 1, 3 :: nat] < 2 ^ 22
      \<and> MAX_INDIVIDUAL_VARIANCE
            * int ((3 * sum_list [9, 1, 1, 1, 1, 1, 1, 3] * 2 ^ 8) div sum_list START_PATTERN) < 2 ^ 31"
    using a1 a2 a3 by blast
  have b: "(1 :: nat) < length [9, 1, 1, 1, 1, 1, 1, 3 :: nat]
      \<and> (316 :: int) = int ((sum_list ([9, 1, 1, 1, 1, 1, 1, 3][1 := 4]) * 2 ^ 8) div sum_list START_PATTERN)
      \<and> (MAX_INDIVIDUAL_VARIANCE * 316) div 2 ^ 8
            + elementVariance [9, 1, 1, 1, 1, 1, 1, 3] START_PATTERN 271 1
            + int (START_PATTERN ! 1) * \<bar>316 - 271\<bar>
          < 2 ^ 8 * \<bar>int 4 - int ([9, 1, 1, 1, 1, 1, 1, 3] ! 1)\<bar>
      \<and> sum_list ([9, 1, 1, 1, 1, 1, 1, 3 :: nat][1 := 4]) < 2 ^ 22
      \<and> MAX_INDIVIDUAL_VARIANCE * 316 < 2 ^ 31"
    by (simp add: elementVariance_def START_PATTERN_def MAX_INDIVIDUAL_VARIANCE_def)
  from t[THEN conjunct1, rule_format, OF a] t[THEN conjunct2, rule_format, OF b] h1 h2
  show ?thesis by blast
qed

text \<open>
  The runs 86, 21, 12, 12, 12, 12, 12, 36 score 24 against the start pattern, under the
  threshold of 107; twice these runs are rejected, the first element being one unit
  over its cap. The runs 17, 2, 2, 2, 2, 2, 2, 5 score 15, and 20561 times these runs
  are rejected: \<open>204 * unitBarWidth\<close> has left the range of \<^verbatim>\<open>int\<close>. And the runs
  16, 2, 2, 2, 2, 2, 2, 6, twice the start pattern, still match with a score of 15 when
  the first run is made 2 pixels longer, although 2 pixels, 512 in scaled units, are
  more than the cap, which is 408 before and 431 after the change.
\<close>

theorem patternMatchVariance_scale_counterexample:
  "patternMatchVariance [86, 21, 12, 12, 12, 12, 12, 36] START_PATTERN MAX_INDIVIDUAL_VARIANCE
     < MAX_AVG_VARIANCE
   \<and> \<not> patternMatchVariance (map ((*) 2) [86, 21, 12, 12, 12, 12, 12, 36]) START_PATTERN
          MAX_INDIVIDUAL_VARIANCE < MAX_AVG_VARIANCE
   \<and> patternMatchVariance [17, 2, 2, 2, 2, 2, 2, 5] START_PATTERN MAX_INDIVIDUAL_VARIANCE
       < MAX_AVG_VARIANCE
   \<and> \<not> patternMatchVariance (map ((*) 20561) [17, 2, 2, 2, 2, 2, 2, 5]) START_PATTERN
          MAX_INDIVIDUAL_VARIANCE < MAX_AVG_VARIANCE
   \<and> patternMatchVariance [16, 2, 2, 2, 2, 2, 2, 6] START_PATTERN MAX_INDIVIDUAL_VARIANCE
       < MAX_AVG_VARIANCE
   \<and> (MAX_INDIVIDUAL_VARIANCE
        * int ((sum_list [16, 2, 2, 2, 2, 2, 2, 6] * 2 ^ 8) div sum_list START_PATTERN)) div 2 ^ 8
       < 2 * 2 ^ 8
   \<and> (MAX_INDIVIDUAL_VARIANCE
        * int ((sum_list [18, 2, 2, 2, 2, 2, 2, 6] * 2 ^ 8) div sum_list START_PATTERN)) div 2 ^ 8
       < 2 * 2 ^ 8
   \<and> patternMatchVariance ([16, 2, 2, 2, 2, 2, 2, 6][0 := 16 + 2]) START_PATTERN
        MAX_INDIVIDUAL_VARIANCE < MAX_AVG_VARIANCE"
proof -
  have m: "map ((*) 2) [86, 21, 12, 12, 12, 12, 12, 36] = [172, 42, 24, 24, 24, 24, 24, 72 :: nat]"
    by simp
  have m': "map ((*) 20561) [17, 2, 2, 2, 2, 2, 2, 5]
            = [349537, 41122, 41122, 41122, 41122, 41122, 41122, 102805 :: nat]"
    by simp
  have p: "[16, 2, 2, 2, 2, 2, 2, 6][0 := 16 + 2] = [18, 2, 2, 2, 2, 2, 2, 6 :: nat]"
    by simp
  have a: "patternMatchVariance [86, 21, 12, 12, 12, 12, 12, 36] START_PATTERN
             MAX_INDIVIDUAL_VARIANCE < MAX_AVG_VARIANCE"
    unfolding pmv_examples by (simp add: MAX_AVG_VARIANCE_def)
  have b: "\<not> patternMatchVariance (map ((*) 2) [86, 21, 12, 12, 12, 12, 12, 36]) START_PATTERN
          MAX_INDIVIDUAL_VARIANCE < MAX_AVG_VARIANCE"
    unfolding m pmv_examples by (simp add: MAX_AVG_VARIANCE_def INT_MAX_def)
  have a': "patternMatchVariance [17, 2, 2, 2, 2, 2, 2, 5] START_PATTERN
             MAX_INDIVIDUAL_VARIANCE < MAX_AVG_VARIANCE"
    unfolding pmv_examples by (simp add: MAX_AVG_VARIANCE_def)
  have b': "\<not> patternMatchVariance (map ((*) 20561) [17, 2, 2, 2, 2, 2, 2, 5]) START_PATTERN
          MAX_INDIVIDUAL_VARIANCE < MAX_AVG_VARIANCE"
    unfolding m' pmv_examples by (simp add: MAX_AVG_VARIANCE_def INT_MAX_def)
  have c: "patternMatchVariance [16, 2, 2, 2, 2, 2, 2, 6] START_PATTERN MAX_INDIVIDUAL_VARIANCE
       < MAX_AVG_VARIANCE"
    unfolding pmv_examples by (simp add: MAX_AVG_VARIANCE_def)
  have d: "(MAX_INDIVIDUAL_VARIANCE
        * int ((sum_list [16, 2, 2, 2, 2, 2, 2, 6] * 2 ^ 8) div sum_list START_PATTERN)) div 2 ^ 8
       < 2 * 2 ^ 8"
    "(MAX_INDIVIDUAL_VARIANCE
        * int ((sum_list [18, 2, 2, 2, 2, 2, 2, 6] * 2 ^ 8) div sum_list START_PATTERN)) div 2 ^ 8
       < 2 * 2 ^ 8"
    by (simp_all add: MAX_INDIVIDUAL_VARIANCE_def START_PATTERN_def)
  have e: "patternMatchVariance ([16, 2, 2, 2, 2, 2, 2, 6][0 := 16 + 2]) START_PATTERN
        MAX_INDIVIDUAL_VARIANCE < MAX_AVG_VARIANCE"
    unfolding p pmv_examples by (simp add: MAX_AVG_VARIANCE_def)
  from a b a' b' c d e show ?thesis by blast
qed

end
